theory Spec2Isabelle
  imports Main
begin

section \<open>Strings\<close>

text \<open>
  A Go string is a sequence of bytes, so it is modelled as a \<^typ>\<open>string\<close>, a list of
  8-bit \<^typ>\<open>char\<close>s; \<open>length\<close> is Go's \<open>len\<close> and counts bytes. Text is UTF-8: a
  character outside ASCII is several bytes, all of them \<open>0x80\<close> or above.
\<close>

section \<open>Package docx: file names\<close>

text \<open>
  \<^verbatim>\<open>var unsafeChars = regexp.MustCompile(`[\\/:*?"<>| ]+`)\<close>

  The character class of the expression: backslash, slash, colon, star, question mark,
  double quote, the angle brackets, the bar and the space. All are ASCII, and a byte of a
  multi-byte character never matches.
\<close>

definition unsafeChars :: "char list" where
  "unsafeChars =
     [CHR 0x5C, CHR ''/'', CHR '':'', CHR ''*'', CHR ''?'', CHR 0x22,
      CHR ''<'', CHR ''>'', CHR ''|'', CHR '' '']"

definition unsafeChar :: "char \<Rightarrow> bool" where
  "unsafeChar c \<longleftrightarrow> c \<in> set unsafeChars"

text \<open>
  \<^verbatim>\<open>unsafeChars.ReplaceAllString(title, "_")\<close>: the matches of \<open>[...]+\<close> are found from
  left to right, each one greedy, so a match starts at the first byte of the class and
  takes every byte of the class that follows; the match is replaced by the replacement
  text, everything else is copied.
\<close>

function ReplaceAllString :: "string \<Rightarrow> string \<Rightarrow> string" where
  "ReplaceAllString [] repl = []"
| "ReplaceAllString (c # cs) repl =
     (if unsafeChar c then repl @ ReplaceAllString (dropWhile unsafeChar cs) repl
      else c # ReplaceAllString cs repl)"
  by pat_completeness auto
termination
  by (relation "measure (\<lambda>(s, repl). length s)")
     (auto simp: less_Suc_eq_le length_dropWhile_le)

text \<open>
  \<^verbatim>\<open>strings.Trim(s, "_")\<close>: with a cutset of one ASCII byte the library trims that byte
  from the right end, then from the left end.
\<close>

definition trimRightByte :: "string \<Rightarrow> char \<Rightarrow> string" where
  "trimRightByte s c = rev (dropWhile (\<lambda>x. x = c) (rev s))"

definition trimLeftByte :: "string \<Rightarrow> char \<Rightarrow> string" where
  "trimLeftByte s c = dropWhile (\<lambda>x. x = c) s"

definition Trim :: "string \<Rightarrow> char \<Rightarrow> string" where
  "Trim s c = trimLeftByte (trimRightByte s c) c"

text \<open>
  \<^verbatim>\<open>
  func safeFilename(title string) string {
      s := unsafeChars.ReplaceAllString(title, "_")
      s = strings.Trim(s, "_")
      if len(s) > 200 {
          s = s[:200]
      }
      return s
  }
  \<close>
\<close>

definition safeFilename :: "string \<Rightarrow> string" where
  "safeFilename title =
     (let s = ReplaceAllString title ''_'';
          s = Trim s (CHR ''_'')
      in if length s > 200 then take 200 s else s)"

text \<open>
  The first two steps of the sanitization as the specification words them. A run is a
  maximal block of consecutive bytes of the set; the flag of \<open>replace_runs\<close> tells whether
  the byte before the current one belongs to a run, so that one underscore is written
  where a run starts and nothing for the rest of it.
\<close>

fun replace_runs :: "bool \<Rightarrow> string \<Rightarrow> string" where
  "replace_runs in_run [] = []"
| "replace_runs in_run (c # cs) =
     (if unsafeChar c then (if in_run then [] else ''_'') @ replace_runs True cs
      else c # replace_runs False cs)"

definition trim_underscores :: "string \<Rightarrow> string" where
  "trim_underscores s =
     rev (dropWhile (\<lambda>x. x = CHR ''_'') (rev (dropWhile (\<lambda>x. x = CHR ''_'') s)))"

section \<open>Library functions on strings\<close>

text \<open>
  \<^verbatim>\<open>strings.Index(s, sep)\<close>: the position of the first occurrence of \<open>sep\<close> in \<open>s\<close>,
  \<open>None\<close> for Go's \<open>-1\<close>.
\<close>

fun Index :: "string \<Rightarrow> string \<Rightarrow> nat option" where
  "Index [] sep = (if sep = [] then Some 0 else None)"
| "Index (c # cs) sep =
     (if take (length sep) (c # cs) = sep then Some 0
      else map_option Suc (Index cs sep))"

text \<open>
  \<^verbatim>\<open>strings.Split(s, sep)\<close> for a separator that is not empty: the text before the first
  occurrence of the separator, then the split of the text after it; the last element is
  what remains when the separator no longer occurs. (With an empty separator the library
  takes another path, cutting after each UTF-8 sequence; the program never calls it so,
  and the model returns the string whole.)
\<close>

function Split :: "string \<Rightarrow> string \<Rightarrow> string list" where
  "Split s sep =
     (if sep = [] then [s]
      else case Index s sep of
             None \<Rightarrow> [s]
           | Some m \<Rightarrow> take m s # Split (drop (m + length sep) s) sep)"
  by pat_completeness auto
termination
proof (relation "measure (\<lambda>(s, sep). length s)")
  show "wf (measure (\<lambda>(s, sep). length s))" by simp
next
  fix s sep :: string and m :: nat
  assume sep: "sep \<noteq> []" and m: "Index s sep = Some m"
  have bound: "Index t sep = Some k \<Longrightarrow> k + length sep \<le> length t" for t k
  proof (induction t arbitrary: k)
    case Nil
    then show ?case by (simp split: if_splits)
  next
    case (Cons c cs)
    show ?case
    proof (cases "take (length sep) (c # cs) = sep")
      case True
      then have "length (take (length sep) (c # cs)) = length sep" by simp
      then have "length sep \<le> length (c # cs)" by (simp del: take_Suc_Cons)
      with True Cons.prems show ?thesis by simp
    next
      case False
      with Cons.prems obtain j where "Index cs sep = Some j" "k = Suc j" by auto
      with Cons.IH show ?thesis by auto
    qed
  qed
  from bound[OF m] sep have "length (drop (m + length sep) s) < length s"
    by (cases sep) auto
  then show "((drop (m + length sep) s, sep), (s, sep)) \<in> measure (\<lambda>(s, sep). length s)"
    by simp
qed

text \<open>
  \<^verbatim>\<open>strings.ReplaceAll(s, old, new)\<close> for a text \<open>old\<close> that is not empty: every occurrence
  of \<open>old\<close>, found from left to right without overlap, becomes \<open>new\<close>.
\<close>

function ReplaceAll :: "string \<Rightarrow> string \<Rightarrow> string \<Rightarrow> string" where
  "ReplaceAll s old new =
     (if old = [] then s
      else case Index s old of
             None \<Rightarrow> s
           | Some m \<Rightarrow> take m s @ new @ ReplaceAll (drop (m + length old) s) old new)"
  by pat_completeness auto
termination
proof (relation "measure (\<lambda>(s, old, new). length s)")
  show "wf (measure (\<lambda>(s, old, new). length s))" by simp
next
  fix s old new :: string and m :: nat
  assume old: "old \<noteq> []" and m: "Index s old = Some m"
  have bound: "Index t old = Some k \<Longrightarrow> k + length old \<le> length t" for t k
  proof (induction t arbitrary: k)
    case Nil
    then show ?case by (simp split: if_splits)
  next
    case (Cons c cs)
    show ?case
    proof (cases "take (length old) (c # cs) = old")
      case True
      then have "length (take (length old) (c # cs)) = length old" by simp
      then have "length old \<le> length (c # cs)" by (simp del: take_Suc_Cons)
      with True Cons.prems show ?thesis by simp
    next
      case False
      with Cons.prems obtain j where "Index cs old = Some j" "k = Suc j" by auto
      with Cons.IH show ?thesis by auto
    qed
  qed
  from bound[OF m] old have "length (drop (m + length old) s) < length s"
    by (cases old) auto
  then show "((drop (m + length old) s, old, new), (s, old, new))
      \<in> measure (\<lambda>(s, old, new). length s)"
    by simp
qed

text \<open>
  \<^verbatim>\<open>strings.TrimSpace(s)\<close> removes the leading and the trailing white space, where white
  space is a rune of \<open>unicode.IsSpace\<close>: tab, line feed, vertical tab, form feed, carriage
  return, space, U+0085, U+00A0, U+1680, U+2000 to U+200A, U+2028, U+2029, U+202F, U+205F
  and U+3000. The library decodes UTF-8 from the front and from the back; a rune decoded
  at either end is one of these exactly when the bytes there are its UTF-8 encoding, so
  the model compares with the encodings.
\<close>

definition spaceEncodings :: "string list" where
  "spaceEncodings =
     [[CHR 0x09], [CHR 0x0A], [CHR 0x0B], [CHR 0x0C], [CHR 0x0D], [CHR 0x20],
      [CHR 0xC2, CHR 0x85], [CHR 0xC2, CHR 0xA0],
      [CHR 0xE1, CHR 0x9A, CHR 0x80],
      [CHR 0xE2, CHR 0x80, CHR 0x80], [CHR 0xE2, CHR 0x80, CHR 0x81],
      [CHR 0xE2, CHR 0x80, CHR 0x82], [CHR 0xE2, CHR 0x80, CHR 0x83],
      [CHR 0xE2, CHR 0x80, CHR 0x84], [CHR 0xE2, CHR 0x80, CHR 0x85],
      [CHR 0xE2, CHR 0x80, CHR 0x86], [CHR 0xE2, CHR 0x80, CHR 0x87],
      [CHR 0xE2, CHR 0x80, CHR 0x88], [CHR 0xE2, CHR 0x80, CHR 0x89],
      [CHR 0xE2, CHR 0x80, CHR 0x8A],
      [CHR 0xE2, CHR 0x80, CHR 0xA8], [CHR 0xE2, CHR 0x80, CHR 0xA9],
      [CHR 0xE2, CHR 0x80, CHR 0xAF], [CHR 0xE2, CHR 0x81, CHR 0x9F],
      [CHR 0xE3, CHR 0x80, CHR 0x80]]"

definition spacePrefix :: "string \<Rightarrow> string option" where
  "spacePrefix s = find (\<lambda>e. take (length e) s = e) spaceEncodings"

definition spaceSuffix :: "string \<Rightarrow> string option" where
  "spaceSuffix s =
     find (\<lambda>e. length e \<le> length s \<and> drop (length s - length e) s = e) spaceEncodings"

function TrimLeftSpace :: "string \<Rightarrow> string" where
  "TrimLeftSpace s =
     (case spacePrefix s of
        None \<Rightarrow> s
      | Some e \<Rightarrow> TrimLeftSpace (drop (length e) s))"
  by pat_completeness auto
termination
proof (relation "measure length")
  show "wf (measure length)" by simp
next
  fix s e :: string
  assume e: "spacePrefix s = Some e"
  have found: "find P xs = Some x \<Longrightarrow> P x \<and> x \<in> set xs" for P and xs :: "string list" and x
    by (induction xs) (auto split: if_splits)
  from found[OF e[unfolded spacePrefix_def]]
  have "take (length e) s = e" and "e \<in> set spaceEncodings" by simp_all
  then have "e \<noteq> []" and "take (length e) s = e" by (auto simp: spaceEncodings_def)
  then have "length (drop (length e) s) < length s" by (cases s; cases e) auto
  then show "(drop (length e) s, s) \<in> measure length" by simp
qed

function TrimRightSpace :: "string \<Rightarrow> string" where
  "TrimRightSpace s =
     (case spaceSuffix s of
        None \<Rightarrow> s
      | Some e \<Rightarrow> TrimRightSpace (take (length s - length e) s))"
  by pat_completeness auto
termination
proof (relation "measure length")
  show "wf (measure length)" by simp
next
  fix s e :: string
  assume e: "spaceSuffix s = Some e"
  have found: "find P xs = Some x \<Longrightarrow> P x \<and> x \<in> set xs" for P and xs :: "string list" and x
    by (induction xs) (auto split: if_splits)
  from found[OF e[unfolded spaceSuffix_def]]
  have "length e \<le> length s" and "e \<in> set spaceEncodings" by simp_all
  then have "e \<noteq> []" and "length e \<le> length s" by (auto simp: spaceEncodings_def)
  then have "length (take (length s - length e) s) < length s" by (cases s; cases e) auto
  then show "(take (length s - length e) s, s) \<in> measure length" by simp
qed

text \<open>
  The equations of these four functions rewrite a call into a term with another call, so
  they are unfolded by hand, one call at a time.
\<close>

declare Split.simps [simp del] ReplaceAll.simps [simp del]
  TrimLeftSpace.simps [simp del] TrimRightSpace.simps [simp del]

definition TrimSpace :: "string \<Rightarrow> string" where
  "TrimSpace s = TrimRightSpace (TrimLeftSpace s)"

section \<open>Package docx: paragraphs\<close>

text \<open>
  The first half of \<open>Build\<close>:
  \<^verbatim>\<open>
  chunks := strings.Split(content, "\n\n")
  bodyParagraphs := make([]string, 0, len(chunks))
  for _, chunk := range chunks {
      chunk = strings.TrimSpace(chunk)
      if chunk == "" {
          continue
      }
      chunk = strings.ReplaceAll(chunk, "\n", " ")
      bodyParagraphs = append(bodyParagraphs, chunk)
  }
  \<close>
  The loop is a recursion on the chunks that are left, with the paragraphs collected so
  far.
\<close>

fun Build_loop :: "string list \<Rightarrow> string list \<Rightarrow> string list" where
  "Build_loop [] bodyParagraphs = bodyParagraphs"
| "Build_loop (chunk # chunks) bodyParagraphs =
     (let chunk = TrimSpace chunk
      in if chunk = [] then Build_loop chunks bodyParagraphs
         else Build_loop chunks (bodyParagraphs @ [ReplaceAll chunk [CHR 0x0A] '' '']))"

definition Build_paragraphs :: "string \<Rightarrow> string list" where
  "Build_paragraphs content = Build_loop (Split content [CHR 0x0A, CHR 0x0A]) []"

text \<open>
  The chunking as the specification words it: the content is cut at every blank-line
  boundary, a maximal run of two or more line feeds, which is dropped whole; each chunk is
  trimmed; the empty ones are dropped; in the others every line feed becomes one space and
  every other byte stays.
\<close>

function split_blank_lines :: "string \<Rightarrow> string list" where
  "split_blank_lines [] = [[]]"
| "split_blank_lines (c # cs) =
     (if c = CHR 0x0A \<and> take 1 cs = [CHR 0x0A]
      then [] # split_blank_lines (dropWhile (\<lambda>x. x = CHR 0x0A) cs)
      else case split_blank_lines cs of
             [] \<Rightarrow> [[c]]
           | chunk # chunks \<Rightarrow> (c # chunk) # chunks)"
  by pat_completeness auto
termination
  by (relation "measure length") (auto simp: less_Suc_eq_le length_dropWhile_le)

definition chunks_spec :: "string \<Rightarrow> string list" where
  "chunks_spec content =
     map (map (\<lambda>c. if c = CHR 0x0A then CHR '' '' else c))
       (filter (\<lambda>chunk. chunk \<noteq> []) (map TrimSpace (split_blank_lines content)))"

text \<open>
  The chunks that survive: each chunk trimmed, the empty ones dropped. Both the loop of
  \<open>Build\<close> and the specification's chunking go through this list.
\<close>

definition trimmed_chunks :: "string list \<Rightarrow> string list" where
  "trimmed_chunks xs = filter (\<lambda>chunk. chunk \<noteq> []) (map TrimSpace xs)"


section \<open>Errors\<close>

text \<open>
  A Go \<open>error\<close> is a value. The errors that the operating system and the libraries
  return are opaque to the program and come from the environment as \<open>LibError\<close> with
  their text; \<open>Wrapped\<close> is \<^verbatim>\<open>fmt.Errorf("prefix: %w", err)\<close>; the two other
  constructors are the errors the wiki package creates itself.
\<close>

datatype error =
    LibError string
  | Wrapped string error
  | APIStatus nat
  | ArticleNotFound string

section \<open>Package docx: the document\<close>

text \<open>
  \<^verbatim>\<open>utf8.DecodeRune\<close>: the rune at the front of a byte sequence and the number of
  bytes it takes. An ill-formed sequence decodes to \<open>RuneError\<close> (U+FFFD) with width 1.
  The first byte gives the length of the sequence and the range accepted for the second
  byte; the bytes after the second are continuation bytes \<open>0x80\<close> to \<open>0xBF\<close>.
\<close>

definition RuneError :: nat where
  "RuneError = 0xFFFD"

fun DecodeRune :: "string \<Rightarrow> nat \<times> nat" where
  "DecodeRune [] = (RuneError, 0)"
| "DecodeRune (p0 # p) =
     (let b0 = (of_char p0 :: nat) in
      if b0 < 0x80 then (b0, 1)
      else if b0 < 0xC2 \<or> 0xF4 < b0 then (RuneError, 1)
      else
        let sz = (if b0 < 0xE0 then 2 else if b0 < 0xF0 then 3 else 4 :: nat);
            lo = (if b0 = 0xE0 then 0xA0 else if b0 = 0xF0 then 0x90 else 0x80 :: nat);
            hi = (if b0 = 0xED then 0x9F else if b0 = 0xF4 then 0x8F else 0xBF :: nat)
        in
        if length (p0 # p) < sz then (RuneError, 1)
        else
          let b1 = (of_char (p ! 0) :: nat) in
          if b1 < lo \<or> hi < b1 then (RuneError, 1)
          else if sz \<le> 2 then ((b0 mod 0x20) * 0x40 + b1 mod 0x40, 2)
          else
            let b2 = (of_char (p ! 1) :: nat) in
            if b2 < 0x80 \<or> 0xBF < b2 then (RuneError, 1)
            else if sz \<le> 3
              then ((b0 mod 0x10) * 0x1000 + (b1 mod 0x40) * 0x40 + b2 mod 0x40, 3)
            else
              let b3 = (of_char (p ! 2) :: nat) in
              if b3 < 0x80 \<or> 0xBF < b3 then (RuneError, 1)
              else ((b0 mod 8) * 0x40000 + (b1 mod 0x40) * 0x1000
                      + (b2 mod 0x40) * 0x40 + b3 mod 0x40, 4))"

declare DecodeRune.simps [simp del]

text \<open>
  \<^verbatim>\<open>isInCharacterRange\<close> of encoding/xml: the runes that the XML specification allows in
  a document.
\<close>

definition isInCharacterRange :: "nat \<Rightarrow> bool" where
  "isInCharacterRange r \<longleftrightarrow>
     r = 0x09 \<or> r = 0x0A \<or> r = 0x0D \<or>
     (0x20 \<le> r \<and> r \<le> 0xD7FF) \<or>
     (0xE000 \<le> r \<and> r \<le> 0xFFFD) \<or>
     (0x10000 \<le> r \<and> r \<le> 0x10FFFF)"

text \<open>
  \<^verbatim>\<open>xml.EscapeText\<close>: rune by rune, the double quote, the apostrophe, the ampersand, the
  angle brackets, the tab, the line feed and the carriage return are written as
  references; a rune outside the character range, or a byte that is not UTF-8, is written
  as U+FFFD (the bytes \<open>EF BF BD\<close>); the bytes of every other rune are copied.
\<close>

definition escapeRune :: "nat \<Rightarrow> nat \<Rightarrow> string option" where
  \<open>escapeRune r width =
     (if r = 0x22 then Some ''&#34;''
      else if r = 0x27 then Some ''&#39;''
      else if r = 0x26 then Some ''&amp;''
      else if r = 0x3C then Some ''&lt;''
      else if r = 0x3E then Some ''&gt;''
      else if r = 0x09 then Some ''&#x9;''
      else if r = 0x0A then Some ''&#xA;''
      else if r = 0x0D then Some ''&#xD;''
      else if \<not> isInCharacterRange r \<or> (r = 0xFFFD \<and> width = 1)
        then Some [CHR 0xEF, CHR 0xBF, CHR 0xBD]
      else None)\<close>

function EscapeText :: "string \<Rightarrow> string" where
  "EscapeText [] = []"
| "EscapeText (c # s) =
     (case DecodeRune (c # s) of (r, width) \<Rightarrow>
        (case escapeRune r width of
           Some esc \<Rightarrow> esc
         | None \<Rightarrow> take width (c # s))
        @ EscapeText (drop width (c # s)))"
  by pat_completeness auto
termination
proof (relation "measure length", goal_cases)
  case 1
  show ?case by simp
next
  case (2 c s r width)
  then have "DecodeRune (c # s) = (r, width)" by simp
  then have "0 < width"
    by (simp only: DecodeRune.simps Let_def) (simp split: if_splits)
  then show ?case by simp
qed

text \<open>
  \<^verbatim>\<open>
  func xmlEscape(s string) string {
      var buf bytes.Buffer
      if err := xml.EscapeText(&buf, []byte(s)); err != nil {
          return ""
      }
      return buf.String()
  }
  \<close>
  \<open>EscapeText\<close> fails only when its writer does, and a \<open>bytes.Buffer\<close> never does.
\<close>

definition xmlEscape :: "string \<Rightarrow> string" where
  "xmlEscape s = EscapeText s"

text \<open>
  \<^verbatim>\<open>buildDocumentXML\<close> writes the XML declaration, the opening of the document and of
  the body, the heading paragraph with the escaped title, one justified paragraph for each
  element of \<open>paragraphs\<close>, the section properties and the closing tags. The builder
  \<open>b\<close> is the text written so far.
\<close>

fun buildDocumentXML_loop :: "string list \<Rightarrow> string \<Rightarrow> string" where
  "buildDocumentXML_loop [] b = b"
| \<open>buildDocumentXML_loop (p # paragraphs) b =
     buildDocumentXML_loop paragraphs
       (b @ ''<w:p><w:pPr><w:jc w:val="both"/></w:pPr><w:r><w:rPr><w:sz w:val="24"/></w:rPr><w:t xml:space="preserve">''
          @ xmlEscape p
          @ ''</w:t></w:r></w:p>'')\<close>

definition buildDocumentXML :: "string \<Rightarrow> string list \<Rightarrow> string" where
  \<open>buildDocumentXML title paragraphs =
     (let b = ''<?xml version="1.0" encoding="UTF-8" standalone="yes"?>'';
          b = b @ ''<w:document xmlns:w="http://schemas.openxmlformats.org/wordprocessingml/2006/main">'';
          b = b @ ''<w:body>'';
          b = b @ ''<w:p><w:r><w:rPr><w:b/><w:sz w:val="48"/></w:rPr><w:t xml:space="preserve">'';
          b = b @ xmlEscape title;
          b = b @ ''</w:t></w:r></w:p>'';
          b = buildDocumentXML_loop paragraphs b;
          b = b @ ''<w:sectPr><w:pgSz w:w="12240" w:h="15840"/><w:pgMar w:top="1440" w:right="1440" w:bottom="1440" w:left="1440" w:header="708" w:footer="708" w:gutter="0"/></w:sectPr>'';
          b = b @ ''</w:body></w:document>''
      in b)\<close>

definition contentTypesXML :: string where
  \<open>contentTypesXML =
     ''<?xml version="1.0" encoding="UTF-8" standalone="yes"?>'' @ [CHR 0x0A] @
     ''<Types xmlns="http://schemas.openxmlformats.org/package/2006/content-types">'' @ [CHR 0x0A] @
     ''  <Default Extension="rels" ContentType="application/vnd.openxmlformats-package.relationships+xml"/>'' @ [CHR 0x0A] @
     ''  <Default Extension="xml" ContentType="application/xml"/>'' @ [CHR 0x0A] @
     ''  <Override PartName="/word/document.xml" ContentType="application/vnd.openxmlformats-officedocument.wordprocessingml.document.main+xml"/>'' @ [CHR 0x0A] @
     ''</Types>''\<close>

definition rootRelsXML :: string where
  \<open>rootRelsXML =
     ''<?xml version="1.0" encoding="UTF-8" standalone="yes"?>'' @ [CHR 0x0A] @
     ''<Relationships xmlns="http://schemas.openxmlformats.org/package/2006/relationships">'' @ [CHR 0x0A] @
     ''  <Relationship Id="rId1" Type="http://schemas.openxmlformats.org/officeDocument/2006/relationships/officeDocument" Target="word/document.xml"/>'' @ [CHR 0x0A] @
     ''</Relationships>''\<close>

section \<open>Package docx: the archive\<close>

text \<open>
  The archive that \<open>writeDocx\<close> produces is the list of its entries, name and content,
  in the order of their creation. A file is \<open>Complete\<close> when every entry was written and
  \<open>Damaged\<close>, with the entries written before the failure, when \<open>writeDocx\<close> gave up.
  \<^verbatim>\<open>filepath.Join(outDir, filename)\<close> names the file \<open>filename\<close> in the directory
  \<open>outDir\<close>; the model keeps the two apart, so a path is a pair.

  What the operating system and the zip writer answer is the environment: for each call
  that can fail, the error it returns, if any. The results of the two deferred \<open>Close\<close>
  calls are discarded by the source and have no place in the model.
\<close>

datatype docx_file =
    Complete "(string \<times> string) list"
  | Damaged "(string \<times> string) list"

type_synonym filesystem = "string \<times> string \<Rightarrow> docx_file option"

record docx_env =
  MkdirAll_error :: "string \<Rightarrow> error option"
  Create_error :: "string \<times> string \<Rightarrow> error option"
  zw_Create_error :: "string \<Rightarrow> error option"
  Write_error :: "string \<Rightarrow> error option"

text \<open>
  \<^verbatim>\<open>
  addFile := func(name, content string) error {
      w, err := zw.Create(name)
      if err != nil {
          return err
      }
      _, err = w.Write([]byte(content))
      return err
  }
  \<close>
\<close>

definition addFile ::
  "docx_env \<Rightarrow> (string \<times> string) list \<Rightarrow> string \<Rightarrow> string
     \<Rightarrow> error option \<times> (string \<times> string) list" where
  "addFile env zw name content =
     (case zw_Create_error env name of
        Some err \<Rightarrow> (Some err, zw)
      | None \<Rightarrow>
          (case Write_error env name of
             Some err \<Rightarrow> (Some err, zw)
           | None \<Rightarrow> (None, zw @ [(name, content)])))"

definition writeDocx ::
  "docx_env \<Rightarrow> filesystem \<Rightarrow> string \<times> string \<Rightarrow> string \<Rightarrow> string list
     \<Rightarrow> error option \<times> filesystem" where
  "writeDocx env fs path title paragraphs =
     (case Create_error env path of
        Some err \<Rightarrow> (Some (Wrapped ''create file'' err), fs)
      | None \<Rightarrow>
     (case addFile env [] ''[Content_Types].xml'' contentTypesXML of
        (Some err, zw) \<Rightarrow>
          (Some (Wrapped ''write [Content_Types].xml'' err), fs(path \<mapsto> Damaged zw))
      | (None, zw) \<Rightarrow>
     (case addFile env zw ''_rels/.rels'' rootRelsXML of
        (Some err, zw) \<Rightarrow>
          (Some (Wrapped ''write _rels/.rels'' err), fs(path \<mapsto> Damaged zw))
      | (None, zw) \<Rightarrow>
     (case addFile env zw ''word/document.xml'' (buildDocumentXML title paragraphs) of
        (Some err, zw) \<Rightarrow>
          (Some (Wrapped ''write word/document.xml'' err), fs(path \<mapsto> Damaged zw))
      | (None, zw) \<Rightarrow> (None, fs(path \<mapsto> Complete zw))))))"

text \<open>
  \<^verbatim>\<open>
  func Build(title, content, outDir string) error {
      if err := os.MkdirAll(outDir, 0o755); err != nil {
          return fmt.Errorf("create output dir: %w", err)
      }
      ... the paragraphs ...
      filename := safeFilename(title) + ".docx"
      outPath := filepath.Join(outDir, filename)
      if err := writeDocx(outPath, title, bodyParagraphs); err != nil {
          return fmt.Errorf("save docx: %w", err)
      }
      return nil
  }
  \<close>
\<close>

definition Build ::
  "docx_env \<Rightarrow> filesystem \<Rightarrow> string \<Rightarrow> string \<Rightarrow> string
     \<Rightarrow> error option \<times> filesystem" where
  "Build env fs title content outDir =
     (case MkdirAll_error env outDir of
        Some err \<Rightarrow> (Some (Wrapped ''create output dir'' err), fs)
      | None \<Rightarrow>
          (let bodyParagraphs = Build_paragraphs content;
               filename = safeFilename title @ ''.docx'';
               outPath = (outDir, filename)
           in case writeDocx env fs outPath title bodyParagraphs of
                (Some err, fs') \<Rightarrow> (Some (Wrapped ''save docx'' err), fs')
              | (None, fs') \<Rightarrow> (None, fs')))"

section \<open>Package wiki\<close>

text \<open>
  The sources hold two revisions of this package. The model follows the current one, which
  talks to the API through its own HTTP client, keeps the set of the titles seen and
  bounds the attempts; the earlier one went through the go-wiki library.

  What the network answers to one request: the request could not be built
  (\<open>http.NewRequest\<close> failed), the transport failed (\<open>wikiClient.Do\<close> failed), or a
  reply came with its status code and the result of decoding its body as JSON. The
  functions take the answers as a parameter. The rate limiter (\<open>wait\<close>) only delays a
  request and is not part of the model.
\<close>

datatype 'a response =
    RequestError error
  | TransportError error
  | Reply nat "error + 'a"

record Article =
  Title :: string
  Content :: string

record page =
  page_title :: string
  page_extract :: string

text \<open>
  \<open>FetchArticle\<close>: the body of a reply is the map of pages; the source ranges over it and
  returns at the first page, so the model takes the pages in the order of that iteration.
  \<^verbatim>\<open>
  for _, page := range res.Query.Pages {
      return Article{Title: page.Title, Content: page.Extract}, nil
  }
  return Article{}, fmt.Errorf("article not found: %s", title)
  \<close>
\<close>

definition FetchArticle :: "(string \<Rightarrow> page list response) \<Rightarrow> string \<Rightarrow> error + Article" where
  "FetchArticle api title =
     (case api title of
        RequestError err \<Rightarrow> Inl err
      | TransportError err \<Rightarrow> Inl err
      | Reply status body \<Rightarrow>
          if status \<noteq> 200 then Inl (APIStatus status)
          else case body of
                 Inl err \<Rightarrow> Inl err
               | Inr pages \<Rightarrow>
                   (case pages of
                      [] \<Rightarrow> Inl (ArticleNotFound title)
                    | p # _ \<Rightarrow> Inr \<lparr>Title = page_title p, Content = page_extract p\<rparr>))"

text \<open>
  \<open>GetRandomTitles\<close>. Go's \<open>int\<close> has 64 bits on the platforms the program is built
  for, and \<open>limit * 3\<close> wraps around; every other operation of the function stays in range.
  The state of the loop is the set of titles seen, the result, the number of attempts and,
  for the claims about the network, the number of requests sent.
\<close>

definition int64 :: "int \<Rightarrow> int" where
  "int64 x = (x + 2 ^ 63) mod 2 ^ 64 - 2 ^ 63"

record rt_state =
  uniqueTitles :: "string set"
  result :: "string list"
  attempts :: int
  requests :: nat

text \<open>
  \<^verbatim>\<open>
  for _, r := range res.Query.Random {
      if _, exists := uniqueTitles[r.Title]; !exists {
          uniqueTitles[r.Title] = struct{}{}
          result = append(result, r.Title)
          if len(result) >= limit {
              break
          }
      }
  }
  \<close>
\<close>

fun GetRandomTitles_range :: "int \<Rightarrow> string list \<Rightarrow> rt_state \<Rightarrow> rt_state" where
  "GetRandomTitles_range limit [] st = st"
| "GetRandomTitles_range limit (r # random) st =
     (if r \<notin> uniqueTitles st then
        (let st = st\<lparr>uniqueTitles := insert r (uniqueTitles st), result := result st @ [r]\<rparr>
         in if int (length (result st)) \<ge> limit then st
            else GetRandomTitles_range limit random st)
      else GetRandomTitles_range limit random st)"

text \<open>
  The outer loop. The endpoint is a function of the number of the attempt and of the batch
  size asked for. Its answer is \<open>None\<close> when the request is never answered: the
  requests go through
  \<^verbatim>\<open>var wikiClient = &http.Client{}\<close>,
  a client whose \<open>Timeout\<close> is zero, which for \<open>net/http\<close> means no timeout (the
  timeout that \<open>main\<close> sets is the one of \<open>http.DefaultClient\<close>, which this package does
  not use), so \<open>wikiClient.Do\<close> and the reading of the body wait for as long as the server
  keeps the connection open and silent. The function then does not return, which is the
  value \<open>None\<close> of the model.
\<close>

function GetRandomTitles_loop ::
  "(int \<Rightarrow> int \<Rightarrow> string list response option) \<Rightarrow> int \<Rightarrow> int \<Rightarrow> rt_state
     \<Rightarrow> (rt_state \<times> error option) option" where
  "GetRandomTitles_loop endpoint limit maxAttempts st =
     (if int (card (uniqueTitles st)) < limit \<and> attempts st < maxAttempts then
        (let st = st\<lparr>attempts := attempts st + 1\<rparr>;
             batchSize = limit - int (card (uniqueTitles st));
             batchSize = (if batchSize > 500 then 500 else batchSize)
         in case endpoint (attempts st) batchSize of
              None \<Rightarrow> None
            | Some (RequestError err) \<Rightarrow> Some (st, Some err)
            | Some (TransportError err) \<Rightarrow> Some (st\<lparr>requests := requests st + 1\<rparr>, Some err)
            | Some (Reply status body) \<Rightarrow>
                (let st = st\<lparr>requests := requests st + 1\<rparr>
                 in if status \<noteq> 200 then Some (st, Some (APIStatus status))
                    else case body of
                           Inl err \<Rightarrow> Some (st, Some err)
                         | Inr random \<Rightarrow>
                             if length random = 0 then Some (st, None)
                             else GetRandomTitles_loop endpoint limit maxAttempts
                                    (GetRandomTitles_range limit random st)))
      else Some (st, None))"
  by pat_completeness auto
termination
proof (relation "measure (\<lambda>(endpoint, limit, maxAttempts, st). nat (maxAttempts - attempts st))",
       goal_cases)
  case 1
  show ?case by simp
next
  case 2
  have same: "attempts (GetRandomTitles_range l rs s) = attempts s" for l rs s
    by (induction l rs s rule: GetRandomTitles_range.induct) (simp_all add: Let_def)
  from 2 show ?case by (simp add: same)
qed

declare GetRandomTitles_loop.simps [simp del]

definition GetRandomTitles_run ::
  "(int \<Rightarrow> int \<Rightarrow> string list response option) \<Rightarrow> int
     \<Rightarrow> (rt_state \<times> error option) option" where
  "GetRandomTitles_run endpoint limit =
     GetRandomTitles_loop endpoint limit (int64 (limit * 3))
       \<lparr>uniqueTitles = {}, result = [], attempts = 0, requests = 0\<rparr>"

definition GetRandomTitles ::
  "(int \<Rightarrow> int \<Rightarrow> string list response option) \<Rightarrow> int
     \<Rightarrow> (string list \<times> error option) option" where
  "GetRandomTitles endpoint limit =
     (case GetRandomTitles_run endpoint limit of
        None \<Rightarrow> None
      | Some (st, err) \<Rightarrow> Some (result st, err))"

section \<open>Package main\<close>

text \<open>
  \<open>readTitlesFromFile\<close>. The environment answers \<open>os.Open\<close> with an error or with what
  the \<open>bufio.Scanner\<close> on the file delivers: the lines, one for each successful \<open>Scan\<close>,
  and the error that \<open>scanner.Err()\<close> reports after the last one.
  \<^verbatim>\<open>
  for scanner.Scan() {
      line := strings.TrimSpace(scanner.Text())
      if line == "" || strings.HasPrefix(line, "#") {
          continue
      }
      titles = append(titles, line)
  }
  return titles, scanner.Err()
  \<close>
\<close>

definition HasPrefix :: "string \<Rightarrow> string \<Rightarrow> bool" where
  "HasPrefix s prefix \<longleftrightarrow> take (length prefix) s = prefix"

fun readTitlesFromFile_loop :: "string list \<Rightarrow> string list \<Rightarrow> string list" where
  "readTitlesFromFile_loop [] titles = titles"
| "readTitlesFromFile_loop (text # scanner) titles =
     (let line = TrimSpace text
      in if line = [] \<or> HasPrefix line ''#'' then readTitlesFromFile_loop scanner titles
         else readTitlesFromFile_loop scanner (titles @ [line]))"

definition readTitlesFromFile ::
  "(string \<Rightarrow> error + string list \<times> error option) \<Rightarrow> string
     \<Rightarrow> string list \<times> error option" where
  "readTitlesFromFile Open path =
     (case Open path of
        Inl err \<Rightarrow> ([], Some (Wrapped ''open file'' err))
      | Inr (scanner, scanner_Err) \<Rightarrow> (readTitlesFromFile_loop scanner [], scanner_Err))"

text \<open>
  \<^verbatim>\<open>
  func processArticle(title, outDir string) error {
      article, err := wiki.FetchArticle(title)
      if err != nil {
          return fmt.Errorf("fetch: %w", err)
      }
      if err := docx.Build(article.Title, article.Content, outDir); err != nil {
          return fmt.Errorf("build docx: %w", err)
      }
      return nil
  }
  \<close>
\<close>

definition processArticle ::
  "(string \<Rightarrow> page list response) \<Rightarrow> docx_env \<Rightarrow> filesystem \<Rightarrow> string \<Rightarrow> string
     \<Rightarrow> error option \<times> filesystem" where
  "processArticle api env fs title outDir =
     (case FetchArticle api title of
        Inl err \<Rightarrow> (Some (Wrapped ''fetch'' err), fs)
      | Inr article \<Rightarrow>
          (case Build env fs (Title article) (Content article) outDir of
             (Some err, fs') \<Rightarrow> (Some (Wrapped ''build docx'' err), fs')
           | (None, fs') \<Rightarrow> (None, fs')))"

text \<open>
  The worker pool of \<open>main\<close>. The number of workers is the flag \<open>-workers\<close>, replaced by
  an alias that is not zero:
  \<^verbatim>\<open>
  if *workerAlias != 0 { *nWorkers = *workerAlias }
  if *wAlias != 0 { *nWorkers = *wAlias }
  \<close>
  and the pool is started by
  \<^verbatim>\<open>
  for i := 0; i < *nWorkers; i++ {
      wg.Add(1)
      go func() { defer wg.Done(); for title := range titlesCh { ... } }()
  }
  wg.Wait()
  \<close>
\<close>

definition merge_aliases :: "int \<Rightarrow> int \<Rightarrow> int \<Rightarrow> int" where
  "merge_aliases nWorkers workerAlias wAlias =
     (let nWorkers = (if workerAlias \<noteq> 0 then workerAlias else nWorkers);
          nWorkers = (if wAlias \<noteq> 0 then wAlias else nWorkers)
      in nWorkers)"

function spawn_workers :: "int \<Rightarrow> int \<Rightarrow> nat \<Rightarrow> nat" where
  "spawn_workers i nWorkers spawned =
     (if i < nWorkers then spawn_workers (i + 1) nWorkers (Suc spawned) else spawned)"
  by pat_completeness auto
termination
  by (relation "measure (\<lambda>(i, nWorkers, spawned). nat (nWorkers - i))") auto

declare spawn_workers.simps [simp del]

text \<open>
  The pool as a transition system. The channel \<open>titlesCh\<close> holds the titles and is
  closed; \<open>running\<close> counts the workers that have not returned; \<open>taken\<close> lists the titles
  that some worker received and passed to \<open>processArticle\<close>, and \<open>failed\<close> those for which
  it returned an error (\<open>succeeds\<close> tells which do not; the source keeps a message that
  begins with the title, the model the title). A worker that is running either
  receives the next title or, when the channel is empty, returns. \<open>wg.Wait()\<close> returns
  once no worker is running.
\<close>

record pool =
  titlesCh :: "string list"
  running :: nat
  taken :: "string list"
  failed :: "string list"

inductive pool_step :: "(string \<Rightarrow> bool) \<Rightarrow> pool \<Rightarrow> pool \<Rightarrow> bool" for succeeds where
  receive_ok:
    "titlesCh s = t # ch \<Longrightarrow> 0 < running s \<Longrightarrow> succeeds t \<Longrightarrow>
     pool_step succeeds s (s\<lparr>titlesCh := ch, taken := taken s @ [t]\<rparr>)"
| receive_fail:
    "titlesCh s = t # ch \<Longrightarrow> 0 < running s \<Longrightarrow> \<not> succeeds t \<Longrightarrow>
     pool_step succeeds s (s\<lparr>titlesCh := ch, taken := taken s @ [t], failed := failed s @ [t]\<rparr>)"
| worker_done:
    "titlesCh s = [] \<Longrightarrow> 0 < running s \<Longrightarrow>
     pool_step succeeds s (s\<lparr>running := running s - 1\<rparr>)"

definition start_pool :: "string list \<Rightarrow> int \<Rightarrow> pool" where
  "start_pool titles nWorkers =
     \<lparr>titlesCh = titles, running = spawn_workers 0 nWorkers 0, taken = [], failed = []\<rparr>"

definition Wait_returns :: "pool \<Rightarrow> bool" where
  "Wait_returns s \<longleftrightarrow> running s = 0"

text \<open>
  The last line of \<open>main\<close> prints
  \<^verbatim>\<open>fmt.Printf("\nDone. %d succeeded, %d failed.\n", len(titles)-len(failed), len(failed))\<close>.
\<close>

definition summary :: "string list \<Rightarrow> pool \<Rightarrow> int \<times> int" where
  "summary titles s = (int (length titles) - int (length (failed s)), int (length (failed s)))"

section \<open>Reading the document back\<close>

text \<open>
  The claims about the text of \<open>word/document.xml\<close> need the view of a reader of the
  file. The document is cut into tags (from an opening to the next closing angle bracket)
  and the text between them; a text run is the text between a tag of the element \<open>w:t\<close> and
  the tag that follows, with its references resolved: the five named entities of XML and
  the numeric character references, decimal or hexadecimal, whose rune is written in
  UTF-8.
\<close>

definition EncodeRune :: "nat \<Rightarrow> string" where
  "EncodeRune r =
     (if r < 0x80 then [char_of r]
      else if r < 0x800 then [char_of (0xC0 + r div 0x40), char_of (0x80 + r mod 0x40)]
      else if r < 0x10000 then
        [char_of (0xE0 + r div 0x1000), char_of (0x80 + r div 0x40 mod 0x40),
         char_of (0x80 + r mod 0x40)]
      else
        [char_of (0xF0 + r div 0x40000), char_of (0x80 + r div 0x1000 mod 0x40),
         char_of (0x80 + r div 0x40 mod 0x40), char_of (0x80 + r mod 0x40)])"

definition digit_value :: "char \<Rightarrow> nat option" where
  "digit_value c =
     (let n = (of_char c :: nat) in
      if 0x30 \<le> n \<and> n \<le> 0x39 then Some (n - 0x30)
      else if 0x41 \<le> n \<and> n \<le> 0x46 then Some (n - 0x37)
      else if 0x61 \<le> n \<and> n \<le> 0x66 then Some (n - 0x57)
      else None)"

fun parse_digits :: "nat \<Rightarrow> string \<Rightarrow> nat \<Rightarrow> nat option" where
  "parse_digits base [] acc = Some acc"
| "parse_digits base (c # cs) acc =
     (case digit_value c of
        None \<Rightarrow> None
      | Some d \<Rightarrow> if d < base then parse_digits base cs (acc * base + d) else None)"

definition reference_text :: "string \<Rightarrow> string option" where
  \<open>reference_text name =
     (if name = ''amp'' then Some ''&''
      else if name = ''lt'' then Some ''<''
      else if name = ''gt'' then Some ''>''
      else if name = ''quot'' then Some ''"''
      else if name = ''apos'' then Some [CHR 0x27]
      else if take 2 name = ''#x'' \<and> 2 < length name
        then map_option EncodeRune (parse_digits 16 (drop 2 name) 0)
      else if take 1 name = ''#'' \<and> 1 < length name
        then map_option EncodeRune (parse_digits 10 (drop 1 name) 0)
      else None)\<close>

function xml_unescape :: "string \<Rightarrow> string" where
  "xml_unescape [] = []"
| "xml_unescape (c # s) =
     (if c = CHR ''&'' then
        (case Index s '';'' of
           None \<Rightarrow> c # xml_unescape s
         | Some m \<Rightarrow>
             (case reference_text (take m s) of
                None \<Rightarrow> c # xml_unescape s
              | Some v \<Rightarrow> v @ xml_unescape (drop (Suc m) s)))
      else c # xml_unescape s)"
  by pat_completeness auto
termination
  by (relation "measure length") auto

datatype xml_token = Tag string | Text string

function xml_tokens :: "string \<Rightarrow> xml_token list" where
  "xml_tokens s =
     Text (takeWhile (\<lambda>c. c \<noteq> CHR ''<'') s) #
     (case dropWhile (\<lambda>c. c \<noteq> CHR ''<'') s of
        [] \<Rightarrow> []
      | lt # r \<Rightarrow>
          Tag (takeWhile (\<lambda>c. c \<noteq> CHR ''>'') r) #
          xml_tokens (drop 1 (dropWhile (\<lambda>c. c \<noteq> CHR ''>'') r)))"
  by pat_completeness auto
termination
proof (relation "measure length", goal_cases)
  case 1
  show ?case by simp
next
  case (2 s lt r)
  have "length (dropWhile (\<lambda>c. c \<noteq> CHR ''>'') r) \<le> length r"
    by (rule length_dropWhile_le)
  moreover have "length (lt # r) \<le> length s"
    using 2 length_dropWhile_le[of "\<lambda>c. c \<noteq> CHR ''<''" s] by simp
  ultimately show ?case by simp
qed

declare xml_tokens.simps [simp del]

definition is_text_element :: "string \<Rightarrow> bool" where
  "is_text_element tag \<longleftrightarrow> tag = ''w:t'' \<or> take 4 tag = ''w:t ''"

fun text_runs :: "xml_token list \<Rightarrow> string list" where
  "text_runs (Tag t # Text x # rest) =
     (if is_text_element t then xml_unescape x # text_runs rest else text_runs rest)"
| "text_runs (tok # rest) = text_runs rest"
| "text_runs [] = []"

definition document_text_runs :: "string \<Rightarrow> string list" where
  "document_text_runs doc = text_runs (xml_tokens doc)"

definition document_text :: "string \<Rightarrow> string" where
  "document_text doc = concat (document_text_runs doc)"

text \<open>
  A paragraph of the document is what stands between a tag of the element \<open>w:p\<close> and the
  next closing tag of that element (the document nests no paragraph in another); its
  text runs are the text runs among the tokens between the two. The tag of the paragraph
  properties, \<open>w:pPr\<close>, is not a tag of the element \<open>w:p\<close>.
\<close>

fun is_paragraph_element :: "xml_token \<Rightarrow> bool" where
  "is_paragraph_element (Tag t) \<longleftrightarrow> t = ''w:p'' \<or> take 4 t = ''w:p ''"
| "is_paragraph_element (Text x) \<longleftrightarrow> False"

function paragraph_tokens :: "xml_token list \<Rightarrow> xml_token list list" where
  "paragraph_tokens [] = []"
| "paragraph_tokens (tok # toks) =
     (if is_paragraph_element tok then
        takeWhile (\<lambda>t. t \<noteq> Tag ''/w:p'') toks #
        paragraph_tokens (drop 1 (dropWhile (\<lambda>t. t \<noteq> Tag ''/w:p'') toks))
      else paragraph_tokens toks)"
  by pat_completeness auto
termination
proof (relation "measure length", goal_cases)
  case 1
  show ?case by simp
next
  case (2 tok toks)
  have "length (dropWhile (\<lambda>t. t \<noteq> Tag ''/w:p'') toks) \<le> length toks"
    by (rule length_dropWhile_le)
  then show ?case by simp
next
  case (3 tok toks)
  show ?case by simp
qed

definition document_paragraphs :: "string \<Rightarrow> string list list" where
  "document_paragraphs doc = map text_runs (paragraph_tokens (xml_tokens doc))"

text \<open>
  A text is kept by \<open>xml.EscapeText\<close> when it is UTF-8 and each of its runes is a
  character of XML: then no rune is replaced by U+FFFD.
\<close>

function xml_chars :: "string \<Rightarrow> bool" where
  "xml_chars [] = True"
| "xml_chars (c # s) =
     (case DecodeRune (c # s) of (r, width) \<Rightarrow>
        isInCharacterRange r \<and> \<not> (r = RuneError \<and> width = 1) \<and>
        xml_chars (drop width (c # s)))"
  by pat_completeness auto
termination
proof (relation "measure length", goal_cases)
  case 1
  show ?case by simp
next
  case (2 c s r width)
  then have "DecodeRune (c # s) = (r, width)" by simp
  then have "0 < width"
    by (simp only: DecodeRune.simps Let_def) (simp split: if_splits)
  then show ?case by simp
qed

text \<open>
  What a reader finds for a text that went through \<open>xml.EscapeText\<close>: rune by rune, the
  bytes of a rune that is UTF-8 and a character of XML, and U+FFFD (the bytes
  \<open>EF BF BD\<close>) for a byte that is not UTF-8 and for a rune that is no character of XML.
\<close>

function replace_invalid :: "string \<Rightarrow> string" where
  "replace_invalid [] = []"
| "replace_invalid (c # s) =
     (case DecodeRune (c # s) of (r, width) \<Rightarrow>
        (if isInCharacterRange r \<and> \<not> (r = RuneError \<and> width = 1) then take width (c # s)
         else [CHR 0xEF, CHR 0xBF, CHR 0xBD])
        @ replace_invalid (drop width (c # s)))"
  by pat_completeness auto
termination
proof (relation "measure length", goal_cases)
  case 1
  show ?case by simp
next
  case (2 c s r width)
  then have "DecodeRune (c # s) = (r, width)" by simp
  then have "0 < width"
    by (simp only: DecodeRune.simps Let_def) (simp split: if_splits)
  then show ?case by simp
qed

section \<open>Notions of the specification\<close>

text \<open>
  File mode skips a line when, trimmed, it is empty or begins with the number sign.
\<close>

definition skipped_line :: "string \<Rightarrow> bool" where
  "skipped_line text \<longleftrightarrow> TrimSpace text = [] \<or> hd (TrimSpace text) = CHR ''#''"

text \<open>An environment in which no call of the operating system or of the zip writer fails.\<close>

definition no_failures :: docx_env where
  "no_failures =
     \<lparr>MkdirAll_error = (\<lambda>dir. None), Create_error = (\<lambda>path. None),
      zw_Create_error = (\<lambda>name. None), Write_error = (\<lambda>name. None)\<rparr>"






text \<open>The text that one turn of the loop of \<open>buildDocumentXML\<close> adds for a paragraph.\<close>

definition paragraph_xml :: "string \<Rightarrow> string" where
  \<open>paragraph_xml p =
     ''<w:p><w:pPr><w:jc w:val="both"/></w:pPr><w:r><w:rPr><w:sz w:val="24"/></w:rPr><w:t xml:space="preserve">''
     @ xmlEscape p @ ''</w:t></w:r></w:p>''\<close>

text \<open>
  The number of characters of a text, as \<^verbatim>\<open>utf8.RuneCountInString\<close> counts them: one for
  each rune decoded, a byte that is not UTF-8 counting as one.
\<close>

function RuneCountInString :: "string \<Rightarrow> nat" where
  "RuneCountInString [] = 0"
| "RuneCountInString (c # s) =
     (case DecodeRune (c # s) of (r, width) \<Rightarrow>
        Suc (RuneCountInString (drop width (c # s))))"
  by pat_completeness auto
termination
proof (relation "measure length", goal_cases)
  case 1
  show ?case by simp
next
  case (2 c s r width)
  then have "DecodeRune (c # s) = (r, width)" by simp
  then have "0 < width"
    by (simp only: DecodeRune.simps Let_def) (simp split: if_splits)
  then show ?case by simp
qed

text \<open>
  The first \<open>n\<close> characters of a text: the bytes of the first \<open>n\<close> runes that
  \<^verbatim>\<open>utf8.DecodeRune\<close> reads, so that no character is cut.
\<close>

fun take_runes :: "nat \<Rightarrow> string \<Rightarrow> string" where
  "take_runes 0 s = []"
| "take_runes (Suc n) [] = []"
| "take_runes (Suc n) (c # s) =
     (case DecodeRune (c # s) of (r, width) \<Rightarrow>
        take width (c # s) @ take_runes n (drop width (c # s)))"

text \<open>
  The sanitization as the specification words it, with the cut at 200 characters, and
  the sanitization with the cut at 200 bytes.
\<close>

definition sanitize_spec :: "string \<Rightarrow> string" where
  "sanitize_spec title = take_runes 200 (trim_underscores (replace_runs False title))"

definition sanitize_bytes :: "string \<Rightarrow> string" where
  "sanitize_bytes title = take 200 (trim_underscores (replace_runs False title))"

section \<open>Verification: UTF-8\<close>

lemma DecodeRune_ascii:
  "(of_char c :: nat) < 0x80 \<Longrightarrow> DecodeRune (c # s) = (of_char c, 1)"
  by (simp add: DecodeRune.simps Let_def)

lemma DecodeRune_width: "DecodeRune (c # s) = (r, width) \<Longrightarrow> 0 < width"
  by (simp only: DecodeRune.simps Let_def) (simp split: if_splits)

lemma RuneCountInString_le_length: "RuneCountInString s \<le> length s"
proof (induction s rule: RuneCountInString.induct)
  case 1
  show ?case by simp
next
  case (2 c s)
  obtain r width where d: "DecodeRune (c # s) = (r, width)"
    by (cases "DecodeRune (c # s)")
  then have "0 < width"
    by (simp only: DecodeRune.simps Let_def) (simp split: if_splits)
  moreover have "RuneCountInString (drop width (c # s)) \<le> length (drop width (c # s))"
    using "2.IH"[OF d[symmetric]] .
  ultimately show ?case using d by simp
qed

section \<open>Verification: file names\<close>

lemma replace_runs_ReplaceAllString:
  "replace_runs b s = ReplaceAllString (if b then dropWhile unsafeChar s else s) ''_''"
  by (induction s arbitrary: b) auto

lemma trimRight_Cons:
  "rev (dropWhile P (rev (x # xs))) =
     (if rev (dropWhile P (rev xs)) = [] then (if P x then [] else [x])
      else x # rev (dropWhile P (rev xs)))"
  by (auto simp: dropWhile_append dropWhile_eq_Nil_conv)

lemma trim_comm: "dropWhile P (rev (dropWhile P (rev s))) = rev (dropWhile P (rev (dropWhile P s)))"
proof (induction s)
  case Nil
  show ?case by simp
next
  case (Cons x xs)
  show ?case
  proof (cases "P x")
    case True
    then show ?thesis using Cons.IH
      by (auto simp: trimRight_Cons simp del: rev.simps dest: set_dropWhileD)
  next
    case False
    then show ?thesis by (simp add: trimRight_Cons del: rev.simps)
  qed
qed

lemma Trim_trim_underscores: "Trim s (CHR ''_'') = trim_underscores s"
  by (simp add: Trim_def trimLeftByte_def trimRightByte_def trim_underscores_def trim_comm)

lemma safeFilename_take: "safeFilename t = take 200 (Trim (ReplaceAllString t ''_'') (CHR ''_''))"
  by (simp add: safeFilename_def Let_def)

lemma unsafeChar_underscore: "\<not> unsafeChar (CHR ''_'')"
  by (simp add: unsafeChar_def unsafeChars_def)

lemma ReplaceAllString_safe: "c \<in> set (ReplaceAllString s ''_'') \<Longrightarrow> \<not> unsafeChar c"
  by (induction s "''_''" rule: ReplaceAllString.induct)
     (auto simp: unsafeChar_underscore split: if_splits)

lemma ReplaceAllString_id: "\<forall>c\<in>set s. \<not> unsafeChar c \<Longrightarrow> ReplaceAllString s repl = s"
  by (induction s) auto

lemma ReplaceAllString_keeps: "c \<in> set s \<Longrightarrow> \<not> unsafeChar c \<Longrightarrow> c \<in> set (ReplaceAllString s repl)"
proof (induction s repl rule: ReplaceAllString.induct)
  case (1 repl)
  then show ?case by simp
next
  case (2 d ds repl)
  show ?case
  proof (cases "unsafeChar d")
    case True
    with "2.prems" have "c \<in> set ds" by auto
    with "2.prems" have "c \<in> set (dropWhile unsafeChar ds)"
      by (induction ds) auto
    with True "2.IH"(1) "2.prems" show ?thesis by simp
  next
    case False
    with "2.IH"(2) "2.prems" show ?thesis by auto
  qed
qed

lemma set_Trim: "set (Trim s c) \<subseteq> set s"
  unfolding Trim_def trimLeftByte_def trimRightByte_def
  by (metis (no_types, lifting) set_dropWhileD set_rev subsetI)

lemma safeFilename_safe: "c \<in> set (safeFilename x) \<Longrightarrow> \<not> unsafeChar c"
  unfolding safeFilename_take
  using ReplaceAllString_safe set_Trim by (meson in_set_takeD subsetD)

lemma safeFilename_length: "length (safeFilename x) \<le> 200"
  by (simp add: safeFilename_take)

lemma Trim_hd: "Trim s c \<noteq> [] \<Longrightarrow> hd (Trim s c) \<noteq> c"
  unfolding Trim_def trimLeftByte_def by (rule hd_dropWhile)

lemma safeFilename_hd: "safeFilename x \<noteq> [] \<Longrightarrow> hd (safeFilename x) \<noteq> CHR ''_''"
  unfolding safeFilename_take using Trim_hd[of "ReplaceAllString x ''_''" "CHR ''_''"]
  by (cases "Trim (ReplaceAllString x ''_'') (CHR ''_'')") auto

lemma Trim_no_leading:
  assumes "s = [] \<or> hd s \<noteq> c"
  shows "Trim s c = trimRightByte s c"
proof -
  have "dropWhile (\<lambda>x. x = c) s = s" using assms by (cases s) auto
  then show ?thesis
    unfolding Trim_def trimLeftByte_def trimRightByte_def by (simp add: trim_comm)
qed

lemma length_trimRightByte: "length (trimRightByte s c) \<le> length s"
  unfolding trimRightByte_def by (metis length_dropWhile_le length_rev)

lemma safeFilename_twice: "safeFilename (safeFilename x) = trimRightByte (safeFilename x) (CHR ''_'')"
proof -
  let ?y = "safeFilename x"
  have r: "ReplaceAllString ?y ''_'' = ?y"
    by (rule ReplaceAllString_id) (auto dest: safeFilename_safe)
  have t: "Trim ?y (CHR ''_'') = trimRightByte ?y (CHR ''_'')"
    by (rule Trim_no_leading) (use safeFilename_hd in blast)
  have "length (trimRightByte ?y (CHR ''_'')) \<le> 200"
    using length_trimRightByte[of ?y] safeFilename_length[of x] by (meson le_trans)
  then show ?thesis
    by (simp add: safeFilename_take[of ?y] r t)
qed

lemma trimRightByte_id: "trimRightByte s c = s \<longleftrightarrow> s = [] \<or> last s \<noteq> c"
proof (cases s rule: rev_cases)
  case Nil
  then show ?thesis by (simp add: trimRightByte_def)
next
  case (snoc ys y)
  show ?thesis
  proof (cases "y = c")
    case True
    have "length (trimRightByte s c) \<le> length ys"
      using snoc True by (simp add: trimRightByte_def) (metis length_dropWhile_le length_rev)
    then have "trimRightByte s c \<noteq> s" using snoc by auto
    then show ?thesis using snoc True by simp
  next
    case False
    then show ?thesis using snoc by (simp add: trimRightByte_def)
  qed
qed

lemma last_rev_dropWhile:
  "dropWhile P xs \<noteq> [] \<Longrightarrow> \<not> P (last (rev (dropWhile P xs)))"
  using hd_dropWhile[of P xs] by (simp add: last_rev)

lemma trimRightByte_end: "trimRightByte s c = [] \<or> last (trimRightByte s c) \<noteq> c"
  unfolding trimRightByte_def
  using last_rev_dropWhile[of "\<lambda>x. x = c" "rev s"] by auto

lemma Trim_end: "Trim s c = [] \<or> last (Trim s c) \<noteq> c"
  unfolding Trim_def trimLeftByte_def trimRightByte_def trim_comm
  using last_rev_dropWhile[of "\<lambda>x. x = c" "rev (dropWhile (\<lambda>x. x = c) s)"] by auto

lemma dropWhile_keeps: "x \<in> set s \<Longrightarrow> \<not> P x \<Longrightarrow> x \<in> set (dropWhile P s)"
  by (induction s) auto

lemma Trim_keeps: "x \<in> set s \<Longrightarrow> x \<noteq> c \<Longrightarrow> x \<in> set (Trim s c)"
  unfolding Trim_def trimLeftByte_def trimRightByte_def
  by (simp add: dropWhile_keeps)

lemma take_runes_Cons:
  assumes "DecodeRune (c # s) = (r, width)"
  shows "take_runes (Suc n) (c # s) = take width (c # s) @ take_runes n (drop width (c # s))"
  using assms by simp

lemma take_runes_Nil: "take_runes n [] = []"
  by (cases n) simp_all

lemma take_runes_take: "m \<le> n \<Longrightarrow> take m (take_runes n s) = take m s"
proof (induction n s arbitrary: m rule: take_runes.induct)
  case (1 s)
  then show ?case by simp
next
  case (2 n)
  then show ?case by simp
next
  case (3 n c s)
  obtain r width where d: "DecodeRune (c # s) = (r, width)"
    by (cases "DecodeRune (c # s)")
  from DecodeRune_width[OF d] have w: "0 < width" .
  define x where "x = c # s"
  define T where "T = take_runes n (drop width x)"
  note tr = take_runes_Cons[OF d, of n, folded x_def, folded T_def]
  have split: "take m (take width x @ T) = take m (take width x) @ take (m - length (take width x)) T"
    by (rule take_append)
  have "take m (take width x @ T) = take m x"
  proof (cases "width \<le> length x")
    case False
    then have "drop width x = []" "take width x = x" by simp_all
    then have "T = []" by (simp add: T_def take_runes_Nil)
    with \<open>take width x = x\<close> show ?thesis by simp
  next
    case long: True
    then have lw: "length (take width x) = width" by simp
    show ?thesis
    proof (cases "m \<le> width")
      case True
      then have "take m (take width x) = take m x" by (simp add: min_absorb1)
      with True split lw show ?thesis by simp
    next
      case False
      with w "3.prems" have le: "m - width \<le> n" by simp
      have "take (m - width) (take_runes n (drop width (c # s))) = take (m - width) (drop width (c # s))"
        using "3.IH"[OF d[symmetric]] le by simp
      then have ih: "take (m - width) T = take (m - width) (drop width x)"
        by (simp only: x_def T_def)
      have "take m x = take width x @ take (m - width) (drop width x)"
        using False take_add[of width "m - width" x] by simp
      moreover have "take m (take width x) = take width x" using False by (simp add: min_absorb2)
      ultimately show ?thesis using split lw ih by simp
    qed
  qed
  then show ?case by (simp only: tr x_def[symmetric])
qed

lemma take_runes_all: "RuneCountInString s \<le> n \<Longrightarrow> take_runes n s = s"
proof (induction n s rule: take_runes.induct)
  case (1 s)
  then show ?case by (cases s) (simp_all split: prod.splits)
next
  case (2 n)
  then show ?case by simp
next
  case (3 n c s)
  obtain r width where d: "DecodeRune (c # s) = (r, width)"
    by (cases "DecodeRune (c # s)")
  from "3.prems" d have "RuneCountInString (drop width (c # s)) \<le> n" by simp
  with "3.IH"[OF d[symmetric]] have "take_runes n (drop width (c # s)) = drop width (c # s)"
    by simp
  then show ?case by (simp only: take_runes_Cons[OF d] append_take_drop_id)
qed

lemma take_runes_ascii:
  "\<forall>c \<in> set s. (of_char c :: nat) < 0x80 \<Longrightarrow> take_runes n s = take n s"
proof (induction n s rule: take_runes.induct)
  case (3 n c s)
  then have d: "DecodeRune (c # s) = (of_char c, 1)" by (simp add: DecodeRune_ascii)
  from "3.prems" have "\<forall>c \<in> set (drop 1 (c # s)). (of_char c :: nat) < 0x80" by simp
  with "3.IH"[OF d[symmetric]] have "take_runes n (drop 1 (c # s)) = take n (drop 1 (c # s))"
    by simp
  then show ?case by (simp add: d)
qed simp_all

lemma set_replace_runs: "set (replace_runs b s) \<subseteq> insert (CHR ''_'') (set s)"
  by (induction b s rule: replace_runs.induct) auto

lemma set_trim_underscores: "set (trim_underscores s) \<subseteq> set s"
  by (auto simp: trim_underscores_def dest!: set_dropWhileD)

lemma safeFilename_sanitize_bytes: "safeFilename title = sanitize_bytes title"
  by (simp add: safeFilename_take sanitize_bytes_def Trim_trim_underscores
        replace_runs_ReplaceAllString)

lemma DecodeRune_euro:
  "DecodeRune (CHR 0xE2 # CHR 0x82 # CHR 0xAC # s) = (0x20AC, 3)"
  by (simp add: DecodeRune.simps Let_def)

lemma RuneCountInString_euros:
  "RuneCountInString (concat (replicate n [CHR 0xE2, CHR 0x82, CHR 0xAC])) = n"
  by (induction n) (simp_all add: DecodeRune_euro)

lemma Trim_id: "c \<notin> set s \<Longrightarrow> Trim s c = s"
proof -
  assume a: "c \<notin> set s"
  then have "dropWhile (\<lambda>x. x = c) (rev s) = rev s"
    by (intro dropWhile_eq_self_iff[THEN iffD2]) (cases "rev s", auto)
  moreover from a have "dropWhile (\<lambda>x. x = c) s = s"
    by (intro dropWhile_eq_self_iff[THEN iffD2]) (cases s, auto)
  ultimately show ?thesis by (simp add: Trim_def trimLeftByte_def trimRightByte_def)
qed

lemma euros_kept:
  "trim_underscores (replace_runs False (concat (replicate n [CHR 0xE2, CHR 0x82, CHR 0xAC])))
   = concat (replicate n [CHR 0xE2, CHR 0x82, CHR 0xAC])"
proof -
  let ?x = "concat (replicate n [CHR 0xE2, CHR 0x82, CHR 0xAC])"
  have safe: "\<forall>c \<in> set ?x. \<not> unsafeChar c"
    by (auto simp: unsafeChar_def unsafeChars_def)
  have "CHR ''_'' \<notin> set ?x" by auto
  then have "Trim ?x (CHR ''_'') = ?x" by (rule Trim_id)
  with ReplaceAllString_id[OF safe, of "''_''"] show ?thesis
    by (simp add: Trim_trim_underscores[symmetric] replace_runs_ReplaceAllString)
qed

text \<open>
  Claim C4, as amended. For every title, \<open>safeFilename\<close> replaces every run of bytes of
  the set (backslash, slash, colon, star, question mark, double quote, angle brackets,
  bar, space) with one underscore, then trims the underscores at both ends, then cuts the
  result to its first 200 bytes (\<open>sanitize_bytes\<close>); the result has at most 200 bytes and
  at most 200 characters. It is the first 200 bytes of what the sanitization of the
  specification gives, which cuts at 200 characters (\<open>sanitize_spec\<close>); the two are equal
  exactly when the latter has at most 200 bytes, and in particular for every title made
  of ASCII characters only.
\<close>

theorem safeFilename_cut_bytes:
  "safeFilename title = sanitize_bytes title
   \<and> length (safeFilename title) \<le> 200
   \<and> RuneCountInString (safeFilename title) \<le> 200
   \<and> safeFilename title = take 200 (sanitize_spec title)
   \<and> (safeFilename title = sanitize_spec title \<longleftrightarrow> length (sanitize_spec title) \<le> 200)
   \<and> ((\<forall>c \<in> set title. (of_char c :: nat) < 0x80) \<longrightarrow>
        safeFilename title = sanitize_spec title)"
proof -
  define s where "s = trim_underscores (replace_runs False title)"
  have bytes: "safeFilename title = take 200 s"
    by (simp add: safeFilename_sanitize_bytes sanitize_bytes_def s_def)
  have spec: "sanitize_spec title = take_runes 200 s"
    by (simp add: sanitize_spec_def s_def)
  have len: "length (safeFilename title) \<le> 200"
    by (simp add: bytes)
  have runes: "RuneCountInString (safeFilename title) \<le> 200"
    using RuneCountInString_le_length[of "safeFilename title"] len by (rule le_trans)
  have cut: "safeFilename title = take 200 (sanitize_spec title)"
    by (simp add: bytes spec take_runes_take)
  have same: "safeFilename title = sanitize_spec title \<longleftrightarrow> length (sanitize_spec title) \<le> 200"
  proof
    assume "safeFilename title = sanitize_spec title"
    with len show "length (sanitize_spec title) \<le> 200" by simp
  next
    assume "length (sanitize_spec title) \<le> 200"
    with cut show "safeFilename title = sanitize_spec title" by simp
  qed
  have ascii: "safeFilename title = sanitize_spec title"
    if a: "\<forall>c \<in> set title. (of_char c :: nat) < 0x80"
  proof -
    have "\<forall>c \<in> set s. (of_char c :: nat) < 0x80"
    proof
      fix c assume "c \<in> set s"
      with set_trim_underscores[of "replace_runs False title"] set_replace_runs[of False title]
      have "c = CHR ''_'' \<or> c \<in> set title" by (auto simp: s_def)
      with a show "(of_char c :: nat) < 0x80" by auto
    qed
    then show ?thesis by (simp add: bytes spec take_runes_ascii)
  qed
  from safeFilename_sanitize_bytes len runes cut same ascii show ?thesis by blast
qed

text \<open>The theorem at the ASCII title \<open>A: b\<close>.\<close>

theorem safeFilename_cut_bytes_witness:
  "list_all (\<lambda>c. (of_char c :: nat) < 0x80) ''A: b''
   \<and> safeFilename ''A: b'' = ''A_b''
   \<and> sanitize_spec ''A: b'' = ''A_b''
   \<and> sanitize_bytes ''A: b'' = ''A_b''"
  using safeFilename_cut_bytes[of "''A: b''"]
  by code_simp

text \<open>
  Claim C4 as it is stated fails: the cut counts bytes, not characters. A title of 67
  euro signs, each of three bytes, has 67 characters and 201 bytes; the sanitization of
  the specification keeps it whole, while \<open>safeFilename\<close> returns its first 200 bytes:
  66 euro signs and the first two bytes of the last one, which is no character.
\<close>

theorem safeFilename_splits_character:
  "length (concat (replicate 67 [CHR 0xE2, CHR 0x82, CHR 0xAC])) = 201
   \<and> RuneCountInString (concat (replicate 67 [CHR 0xE2, CHR 0x82, CHR 0xAC])) = 67
   \<and> sanitize_spec (concat (replicate 67 [CHR 0xE2, CHR 0x82, CHR 0xAC]))
       = concat (replicate 67 [CHR 0xE2, CHR 0x82, CHR 0xAC])
   \<and> safeFilename (concat (replicate 67 [CHR 0xE2, CHR 0x82, CHR 0xAC]))
       = concat (replicate 66 [CHR 0xE2, CHR 0x82, CHR 0xAC]) @ [CHR 0xE2, CHR 0x82]
   \<and> safeFilename (concat (replicate 67 [CHR 0xE2, CHR 0x82, CHR 0xAC]))
       \<noteq> sanitize_spec (concat (replicate 67 [CHR 0xE2, CHR 0x82, CHR 0xAC]))"
proof -
  let ?e = "[CHR 0xE2, CHR 0x82, CHR 0xAC]"
  let ?x = "concat (replicate 67 ?e)"
  have len: "length ?x = 201" by (simp add: length_concat sum_list_replicate)
  have runes: "RuneCountInString ?x = 67" by (rule RuneCountInString_euros)
  have spec: "sanitize_spec ?x = ?x"
    unfolding sanitize_spec_def euros_kept
    by (rule take_runes_all) (simp add: runes)
  define y where "y = concat (replicate 66 ?e)"
  have "replicate 67 ?e = replicate 66 ?e @ [?e]"
    using replicate_add[of 66 1 ?e] by simp
  then have x: "?x = y @ ?e" by (simp add: y_def)
  have len66: "length y = 198"
    by (simp add: y_def length_concat sum_list_replicate)
  have "take 200 (y @ ?e) = y @ [CHR 0xE2, CHR 0x82]"
    by (simp add: len66)
  moreover have "safeFilename ?x = take 200 ?x"
    by (simp only: safeFilename_sanitize_bytes sanitize_bytes_def euros_kept)
  ultimately have code: "safeFilename ?x = y @ [CHR 0xE2, CHR 0x82]"
    by (simp only: x)
  have "length (safeFilename ?x) = 200"
    by (simp only: code length_append len66) simp
  with len spec have "safeFilename ?x \<noteq> sanitize_spec ?x" by auto
  with len runes spec code show ?thesis unfolding y_def by blast
qed

text \<open>
  Claim C5, as amended. A second sanitization changes the first result exactly when that
  result ends with an underscore, which only a cut at 200 bytes can leave behind: when the
  replaced and trimmed title has at most 200 bytes, sanitizing is idempotent, and in every
  case it is idempotent from the second application on. The result never contains a byte
  of the unsafe set, so no slash, no backslash and therefore no component that climbs
  to a parent directory; and it is not empty when the title has a byte that is neither in the unsafe
  set nor an underscore.
\<close>

theorem safeFilename_idempotence:
  "(safeFilename (safeFilename x) = safeFilename x \<longleftrightarrow>
      safeFilename x = [] \<or> last (safeFilename x) \<noteq> CHR ''_'')
   \<and> (length (Trim (ReplaceAllString x ''_'') (CHR ''_'')) \<le> 200 \<longrightarrow>
        safeFilename (safeFilename x) = safeFilename x)
   \<and> safeFilename (safeFilename (safeFilename x)) = safeFilename (safeFilename x)
   \<and> (\<forall>c \<in> set (safeFilename x). \<not> unsafeChar c)
   \<and> CHR ''/'' \<notin> set (safeFilename x)
   \<and> CHR 0x5C \<notin> set (safeFilename x)
   \<and> ((\<exists>c \<in> set x. \<not> unsafeChar c \<and> c \<noteq> CHR ''_'') \<longrightarrow> safeFilename x \<noteq> [])"
proof (intro conjI impI)
  show iff: "safeFilename (safeFilename x) = safeFilename x \<longleftrightarrow>
      safeFilename x = [] \<or> last (safeFilename x) \<noteq> CHR ''_''" for x
    by (simp only: safeFilename_twice trimRightByte_id)
  show "safeFilename (safeFilename x) = safeFilename x"
    if "length (Trim (ReplaceAllString x ''_'') (CHR ''_'')) \<le> 200"
  proof -
    from that have "safeFilename x = Trim (ReplaceAllString x ''_'') (CHR ''_'')"
      by (simp add: safeFilename_take)
    then have "safeFilename x = [] \<or> last (safeFilename x) \<noteq> CHR ''_''"
      using Trim_end by metis
    then show ?thesis by (simp only: iff)
  qed
  show "safeFilename (safeFilename (safeFilename x)) = safeFilename (safeFilename x)"
    using iff[of "safeFilename x"] trimRightByte_end[of "safeFilename x" "CHR ''_''"]
    by (simp only: safeFilename_twice[of x])
  show "\<forall>c \<in> set (safeFilename x). \<not> unsafeChar c"
    using safeFilename_safe by blast
  show "CHR ''/'' \<notin> set (safeFilename x)"
    using safeFilename_safe[of "CHR ''/''" x] by (auto simp: unsafeChar_def unsafeChars_def)
  show "CHR 0x5C \<notin> set (safeFilename x)"
    using safeFilename_safe[of "CHR 0x5C" x] by (auto simp: unsafeChar_def unsafeChars_def)
  show "safeFilename x \<noteq> []" if "\<exists>c \<in> set x. \<not> unsafeChar c \<and> c \<noteq> CHR ''_''"
  proof -
    from that obtain c where c: "c \<in> set x" "\<not> unsafeChar c" "c \<noteq> CHR ''_''" by blast
    then have "c \<in> set (Trim (ReplaceAllString x ''_'') (CHR ''_''))"
      by (simp add: ReplaceAllString_keeps Trim_keeps)
    then have "Trim (ReplaceAllString x ''_'') (CHR ''_'') \<noteq> []" by auto
    then show ?thesis by (simp add: safeFilename_take)
  qed
qed

text \<open>The theorem at the title \<open>A: b\<close>, where both hypotheses hold.\<close>

theorem safeFilename_idempotence_witness:
  "length (Trim (ReplaceAllString ''A: b'' ''_'') (CHR ''_'')) \<le> 200
   \<and> (\<exists>c \<in> set ''A: b''. \<not> unsafeChar c \<and> c \<noteq> CHR ''_'')
   \<and> safeFilename (safeFilename ''A: b'') = safeFilename ''A: b''
   \<and> safeFilename ''A: b'' \<noteq> []"
  using safeFilename_idempotence [of "''A: b''"]
  by (simp add: Trim_def trimLeftByte_def trimRightByte_def unsafeChar_def unsafeChars_def)

text \<open>
  Claim C5 as it is stated fails. A title of 199 letters, a space and one more letter
  becomes 201 bytes with an underscore at position 200; the cut leaves the underscore at
  the end, and a second sanitization trims it. A title that is one underscore, a byte
  outside the unsafe set, gives the empty name.
\<close>

theorem safeFilename_not_idempotent:
  "safeFilename (replicate 199 (CHR ''a'') @ '' b'') = replicate 199 (CHR ''a'') @ ''_''
   \<and> safeFilename (safeFilename (replicate 199 (CHR ''a'') @ '' b'')) = replicate 199 (CHR ''a'')
   \<and> safeFilename (safeFilename (replicate 199 (CHR ''a'') @ '' b''))
        \<noteq> safeFilename (replicate 199 (CHR ''a'') @ '' b'')
   \<and> safeFilename ''_'' = []"
  by code_simp

section \<open>Verification: paragraphs\<close>

lemma Split_Nil: "sep \<noteq> [] \<Longrightarrow> Split [] sep = [[]]"
  by (simp add: Split.simps[of "[]"])

lemma Split_at_sep:
  assumes "sep \<noteq> []" and "take (length sep) s = sep"
  shows "Split s sep = [] # Split (drop (length sep) s) sep"
proof -
  from assms have "Index s sep = Some 0" by (cases s) auto
  with assms show ?thesis by (simp add: Split.simps[of s])
qed

lemma Split_Cons:
  assumes "sep \<noteq> []" and "take (length sep) (a # s) \<noteq> sep"
  shows "Split (a # s) sep = (case Split s sep of [] \<Rightarrow> [[a]] | h # t \<Rightarrow> (a # h) # t)"
proof (cases "Index s sep")
  case None
  with assms show ?thesis by (simp add: Split.simps[of "a # s"] Split.simps[of s])
next
  case (Some m)
  with assms show ?thesis by (simp add: Split.simps[of "a # s"] Split.simps[of s])
qed

lemma ReplaceAll_byte:
  "ReplaceAll s [a] [b] = map (\<lambda>c. if c = a then b else c) s"
proof (induction s)
  case Nil
  show ?case by (simp add: ReplaceAll.simps[of "[]"])
next
  case (Cons c cs)
  show ?case
  proof (cases "c = a")
    case True
    with Cons show ?thesis by (simp add: ReplaceAll.simps[of "a # cs"])
  next
    case False
    with Cons show ?thesis
      by (cases "Index cs [a]")
         (simp_all add: ReplaceAll.simps[of "c # cs"] ReplaceAll.simps[of cs])
  qed
qed

lemma TrimLeftSpace_Nil: "TrimLeftSpace [] = []"
  by (simp add: TrimLeftSpace.simps[of "[]"] spacePrefix_def spaceEncodings_def)

lemma TrimRightSpace_Nil: "TrimRightSpace [] = []"
  by (simp add: TrimRightSpace.simps[of "[]"] spaceSuffix_def spaceEncodings_def)

lemma TrimSpace_Nil: "TrimSpace [] = []"
  by (simp add: TrimSpace_def TrimLeftSpace_Nil TrimRightSpace_Nil)

lemma TrimLeftSpace_newline: "TrimLeftSpace (CHR 0x0A # s) = TrimLeftSpace s"
  by (simp add: TrimLeftSpace.simps[of "CHR 0x0A # s"] spacePrefix_def spaceEncodings_def)

lemma TrimSpace_newline: "TrimSpace (CHR 0x0A # s) = TrimSpace s"
  by (simp add: TrimSpace_def TrimLeftSpace_newline)

lemma trimmed_chunks_simps:
  "trimmed_chunks [] = []"
  "trimmed_chunks ([] # xs) = trimmed_chunks xs"
  "trimmed_chunks ((CHR 0x0A # x) # xs) = trimmed_chunks (x # xs)"
  by (simp_all add: trimmed_chunks_def TrimSpace_Nil TrimSpace_newline)

lemma trimmed_chunks_Cons_cong:
  "trimmed_chunks xs = trimmed_chunks ys \<Longrightarrow> trimmed_chunks (x # xs) = trimmed_chunks (x # ys)"
  by (simp add: trimmed_chunks_def)

lemma Split_not_Nil: "Split s sep \<noteq> []"
  by (simp add: Split.simps[of s] split: option.splits)

lemma split_blank_lines_not_Nil: "split_blank_lines s \<noteq> []"
  by (cases s) (auto split: list.splits)

lemma Split_blank_blank:
  "Split (CHR 0x0A # CHR 0x0A # s) [CHR 0x0A, CHR 0x0A] = [] # Split s [CHR 0x0A, CHR 0x0A]"
  using Split_at_sep[of "[CHR 0x0A, CHR 0x0A]" "CHR 0x0A # CHR 0x0A # s"] by simp

lemma Split_blank_other:
  assumes "\<not> (a = CHR 0x0A \<and> take 1 s = [CHR 0x0A])"
  shows "Split (a # s) [CHR 0x0A, CHR 0x0A] =
           (a # hd (Split s [CHR 0x0A, CHR 0x0A])) # tl (Split s [CHR 0x0A, CHR 0x0A])"
proof -
  from assms have "take (length [CHR 0x0A, CHR 0x0A]) (a # s) \<noteq> [CHR 0x0A, CHR 0x0A]"
    by (cases s) auto
  from Split_Cons[OF _ this] show ?thesis
    using Split_not_Nil[of s "[CHR 0x0A, CHR 0x0A]"] by (auto split: list.splits)
qed

lemma trimmed_Split_newline:
  "trimmed_chunks (Split (CHR 0x0A # t) [CHR 0x0A, CHR 0x0A]) = trimmed_chunks (Split t [CHR 0x0A, CHR 0x0A])"
proof (induction t)
  case Nil
  show ?case
    by (simp add: Split_blank_other Split_Nil trimmed_chunks_simps)
next
  case (Cons c t)
  show ?case
  proof (cases "c = CHR 0x0A")
    case True
    then show ?thesis using Cons.IH by (simp add: Split_blank_blank trimmed_chunks_simps)
  next
    case False
    then have "Split (CHR 0x0A # c # t) [CHR 0x0A, CHR 0x0A] =
        (CHR 0x0A # hd (Split (c # t) [CHR 0x0A, CHR 0x0A])) # tl (Split (c # t) [CHR 0x0A, CHR 0x0A])"
      by (intro Split_blank_other) simp
    then show ?thesis
      using Split_not_Nil[of "c # t" "[CHR 0x0A, CHR 0x0A]"]
      by (simp add: trimmed_chunks_simps)
  qed
qed

lemma trimmed_Split_dropWhile:
  "trimmed_chunks (Split (dropWhile (\<lambda>x. x = CHR 0x0A) s) [CHR 0x0A, CHR 0x0A]) =
   trimmed_chunks (Split s [CHR 0x0A, CHR 0x0A])"
  by (induction s) (auto simp: trimmed_Split_newline)

lemma trimmed_hd_tl:
  assumes "xs \<noteq> []" "ys \<noteq> []" "hd xs = hd ys" "trimmed_chunks (tl xs) = trimmed_chunks (tl ys)"
  shows "trimmed_chunks xs = trimmed_chunks ys"
  using assms by (cases xs; cases ys) (simp_all add: trimmed_chunks_def)

lemma Split_split_blank_lines:
  "hd (Split s [CHR 0x0A, CHR 0x0A]) = hd (split_blank_lines s) \<and>
   trimmed_chunks (tl (Split s [CHR 0x0A, CHR 0x0A])) = trimmed_chunks (tl (split_blank_lines s))"
proof (induction s rule: split_blank_lines.induct)
  case 1
  show ?case by (simp add: Split_Nil)
next
  case (2 c cs)
  let ?sep = "[CHR 0x0A, CHR 0x0A]"
  show ?case
  proof (cases "c = CHR 0x0A \<and> take 1 cs = [CHR 0x0A]")
    case True
    then obtain cs' where cs: "cs = CHR 0x0A # cs'" by (cases cs) auto
    let ?d = "dropWhile (\<lambda>x. x = CHR 0x0A) cs"
    have e1: "trimmed_chunks (Split ?d ?sep) = trimmed_chunks (split_blank_lines ?d)"
    proof (rule trimmed_hd_tl)
      show "Split ?d ?sep \<noteq> []" by (rule Split_not_Nil)
      show "split_blank_lines ?d \<noteq> []" by (rule split_blank_lines_not_Nil)
      show "hd (Split ?d ?sep) = hd (split_blank_lines ?d)"
        using "2.IH"(1)[OF True] by (rule conjunct1)
      show "trimmed_chunks (tl (Split ?d ?sep)) = trimmed_chunks (tl (split_blank_lines ?d))"
        using "2.IH"(1)[OF True] by (rule conjunct2)
    qed
    have "?d = dropWhile (\<lambda>x. x = CHR 0x0A) cs'" by (simp add: cs)
    then have e2: "trimmed_chunks (Split ?d ?sep) = trimmed_chunks (Split cs' ?sep)"
      by (simp only: trimmed_Split_dropWhile)
    have e3: "trimmed_chunks (Split cs' ?sep) = trimmed_chunks (split_blank_lines ?d)"
      by (rule trans[OF e2[symmetric] e1])
    have A: "Split (c # cs) ?sep = [] # Split cs' ?sep"
      using True by (simp only: cs Split_blank_blank)
    have B: "split_blank_lines (c # cs) = [] # split_blank_lines ?d"
      by (simp only: split_blank_lines.simps if_P[OF True])
    show ?thesis by (simp only: A B list.sel e3)
  next
    case False
    obtain h t where s1: "Split cs ?sep = h # t"
      using Split_not_Nil[of cs ?sep] by (cases "Split cs ?sep") auto
    obtain h' t' where s2: "split_blank_lines cs = h' # t'"
      using split_blank_lines_not_Nil[of cs] by (cases "split_blank_lines cs") auto
    from "2.IH"(2)[OF False] have ih: "h = h'" "trimmed_chunks t = trimmed_chunks t'"
      by (simp_all only: s1 s2 list.sel)
    have A: "Split (c # cs) ?sep = (c # h) # t"
      by (simp only: Split_blank_other[OF False] s1 list.sel)
    have B: "split_blank_lines (c # cs) = (c # h') # t'"
      by (simp only: split_blank_lines.simps if_not_P[OF False] s2 list.case)
    show ?thesis by (simp only: A B list.sel ih)
  qed
qed

lemma Build_loop_eq:
  "Build_loop chunks acc =
     acc @ map (map (\<lambda>c. if c = CHR 0x0A then CHR '' '' else c)) (trimmed_chunks chunks)"
  by (induction chunks arbitrary: acc)
     (simp_all add: trimmed_chunks_def Let_def ReplaceAll_byte)

lemma Split_example:
  "Split
     (''A'' @ [CHR 0x0A, CHR 0x0A] @ ''B'' @ [CHR 0x0A] @ ''C''
        @ [CHR 0x0A, CHR 0x0A, CHR 0x0A, CHR 0x0A] @ ''D'') [CHR 0x0A, CHR 0x0A]
     = [''A'', ''B'' @ [CHR 0x0A] @ ''C'', [], ''D'']"
  by (simp add: Split.simps)

lemma TrimSpace_example:
  "TrimSpace ''A'' = ''A''"
  "TrimSpace ''D'' = ''D''"
  "TrimSpace [CHR ''B'', CHR 0x0A, CHR ''C''] = [CHR ''B'', CHR 0x0A, CHR ''C'']"
  by (simp_all add: TrimSpace_def TrimLeftSpace.simps TrimRightSpace.simps
        spacePrefix_def spaceSuffix_def spaceEncodings_def)

text \<open>
  Claim C2. For every content, the paragraphs that \<open>Build\<close> collects are the chunks of
  the specification: the content cut at every run of two or more line feeds, each chunk
  trimmed, the empty chunks dropped, and in the others every line feed turned into one
  space with every other byte kept. On the content \<^verbatim>\<open>"A\n\nB\nC\n\n\n\nD"\<close> the paragraphs
  are \<open>A\<close>, \<open>B C\<close> and \<open>D\<close>, in that order.
\<close>

theorem Build_paragraphs_chunks_spec:
  "Build_paragraphs content = chunks_spec content \<and>
   Build_paragraphs
     (''A'' @ [CHR 0x0A, CHR 0x0A] @ ''B'' @ [CHR 0x0A] @ ''C''
        @ [CHR 0x0A, CHR 0x0A, CHR 0x0A, CHR 0x0A] @ ''D'')
     = [''A'', ''B C'', ''D'']"
proof
  have "trimmed_chunks (Split content [CHR 0x0A, CHR 0x0A]) =
        trimmed_chunks (split_blank_lines content)"
  proof (rule trimmed_hd_tl)
    show "Split content [CHR 0x0A, CHR 0x0A] \<noteq> []" by (rule Split_not_Nil)
    show "split_blank_lines content \<noteq> []" by (rule split_blank_lines_not_Nil)
    show "hd (Split content [CHR 0x0A, CHR 0x0A]) = hd (split_blank_lines content)"
      using Split_split_blank_lines[of content] by (rule conjunct1)
    show "trimmed_chunks (tl (Split content [CHR 0x0A, CHR 0x0A])) =
          trimmed_chunks (tl (split_blank_lines content))"
      using Split_split_blank_lines[of content] by (rule conjunct2)
  qed
  then show "Build_paragraphs content = chunks_spec content"
    by (simp add: Build_paragraphs_def chunks_spec_def Build_loop_eq trimmed_chunks_def)
  show "Build_paragraphs
     (''A'' @ [CHR 0x0A, CHR 0x0A] @ ''B'' @ [CHR 0x0A] @ ''C''
        @ [CHR 0x0A, CHR 0x0A, CHR 0x0A, CHR 0x0A] @ ''D'')
     = [''A'', ''B C'', ''D'']"
    unfolding Build_paragraphs_def Split_example
    by (simp add: TrimSpace_example TrimSpace_Nil ReplaceAll_byte)
qed

section \<open>Verification: the title file\<close>

lemma HasPrefix_hash: "HasPrefix line ''#'' \<longleftrightarrow> line \<noteq> [] \<and> hd line = CHR ''#''"
  by (cases line) (auto simp: HasPrefix_def)

lemma readTitlesFromFile_loop_eq:
  "readTitlesFromFile_loop scanner titles =
     titles @ map TrimSpace (filter (\<lambda>text. \<not> skipped_line text) scanner)"
  by (induction scanner arbitrary: titles)
     (auto simp: Let_def skipped_line_def HasPrefix_hash)

lemma TrimSpace_titles_example:
  "TrimSpace ''Colonnaden'' = ''Colonnaden''"
  "TrimSpace ''# comment'' = ''# comment''"
  "TrimSpace ''  Alan Turing '' = ''Alan Turing''"
  "TrimSpace '' #x'' = ''#x''"
  by (simp_all add: TrimSpace_def TrimLeftSpace.simps TrimRightSpace.simps
        spacePrefix_def spaceSuffix_def spaceEncodings_def)

text \<open>
  Claim C7, as amended. When the file opens, the titles are the lines that are not
  skipped, each one trimmed of its surrounding white space, in the order of the file and
  with their repetitions; a line is skipped exactly when, trimmed, it is empty or begins
  with the number sign. The error returned is the error of the scanner.
\<close>

theorem readTitlesFromFile_trimmed_lines:
  "Open path = Inr (scanner, scanner_Err) \<Longrightarrow>
   readTitlesFromFile Open path =
     (map TrimSpace (filter (\<lambda>text. \<not> skipped_line text) scanner), scanner_Err)"
  by (simp add: readTitlesFromFile_def readTitlesFromFile_loop_eq)

text \<open>The theorem on a file of six lines, two of them the same title.\<close>

theorem readTitlesFromFile_trimmed_lines_witness:
  "(\<lambda>path. Inr ([''Colonnaden'', [], ''# comment'', ''  Alan Turing '', '' #x'', ''Colonnaden''], None))
      ''titles.txt''
     = (Inr ([''Colonnaden'', [], ''# comment'', ''  Alan Turing '', '' #x'', ''Colonnaden''], None)
          :: error + string list \<times> error option)
   \<and> readTitlesFromFile
       (\<lambda>path. Inr ([''Colonnaden'', [], ''# comment'', ''  Alan Turing '', '' #x'', ''Colonnaden''], None))
       ''titles.txt''
     = ([''Colonnaden'', ''Alan Turing'', ''Colonnaden''], None)"
  using readTitlesFromFile_trimmed_lines
    [of "\<lambda>path. Inr ([''Colonnaden'', [], ''# comment'', ''  Alan Turing '', '' #x'', ''Colonnaden''], None)"
        "''titles.txt''"
        "[''Colonnaden'', [], ''# comment'', ''  Alan Turing '', '' #x'', ''Colonnaden'']" None]
  by (simp add: skipped_line_def TrimSpace_titles_example TrimSpace_Nil)

text \<open>
  Claim C7 as it is stated fails: a line with white space around the title is not taken
  verbatim, the title is the trimmed line.
\<close>

theorem readTitlesFromFile_not_verbatim:
  "readTitlesFromFile (\<lambda>path. Inr ([''  Alan Turing ''], None)) ''titles.txt''
     = ([''Alan Turing''], None)
   \<and> ''Alan Turing'' \<noteq> ''  Alan Turing ''"
  by (simp add: readTitlesFromFile_def Let_def HasPrefix_def TrimSpace_titles_example)

section \<open>Verification: the archive and its name\<close>

lemma addFile_None:
  "addFile env zw name content = (None, zw') \<Longrightarrow> zw' = zw @ [(name, content)]"
  by (auto simp: addFile_def split: option.splits)

lemma writeDocx_success:
  assumes "writeDocx env fs path title paragraphs = (None, fs')"
  shows "fs' = fs(path \<mapsto> Complete
            [(''[Content_Types].xml'', contentTypesXML),
             (''_rels/.rels'', rootRelsXML),
             (''word/document.xml'', buildDocumentXML title paragraphs)])"
proof -
  from assms obtain zw1 zw2 zw3 where
    a1: "addFile env [] ''[Content_Types].xml'' contentTypesXML = (None, zw1)" and
    a2: "addFile env zw1 ''_rels/.rels'' rootRelsXML = (None, zw2)" and
    a3: "addFile env zw2 ''word/document.xml'' (buildDocumentXML title paragraphs) = (None, zw3)" and
    fs': "fs' = fs(path \<mapsto> Complete zw3)"
    unfolding writeDocx_def
    by (auto split: option.splits prod.splits)
  from addFile_None[OF a1] addFile_None[OF a2] addFile_None[OF a3] fs'
  show ?thesis by simp
qed

lemma Build_success:
  assumes "Build env fs title content outDir = (None, fs')"
  shows "fs' = fs((outDir, safeFilename title @ ''.docx'') \<mapsto> Complete
            [(''[Content_Types].xml'', contentTypesXML),
             (''_rels/.rels'', rootRelsXML),
             (''word/document.xml'', buildDocumentXML title (Build_paragraphs content))])"
proof -
  from assms have
    "writeDocx env fs (outDir, safeFilename title @ ''.docx'') title (Build_paragraphs content)
       = (None, fs')"
    unfolding Build_def Let_def
    by (auto split: option.splits prod.splits)
  then show ?thesis by (rule writeDocx_success)
qed

lemma writeDocx_no_failures:
  "writeDocx no_failures fs path title paragraphs =
     (None, fs(path \<mapsto> Complete
            [(''[Content_Types].xml'', contentTypesXML),
             (''_rels/.rels'', rootRelsXML),
             (''word/document.xml'', buildDocumentXML title paragraphs)]))"
  by (simp add: writeDocx_def addFile_def no_failures_def)

text \<open>
  Claim C3. When \<open>writeDocx\<close> returns without error, the file at its path is a complete
  archive with exactly three entries: \<open>[Content_Types].xml\<close> with the content-type
  manifest, \<open>_rels/.rels\<close> with the root relationships and \<open>word/document.xml\<close> with the
  document built from the title and the paragraphs; and nothing else in the file system
  has changed.
\<close>

theorem writeDocx_three_entries:
  assumes "writeDocx env fs path title paragraphs = (None, fs')"
  shows "fs' = fs(path \<mapsto> Complete
            [(''[Content_Types].xml'', contentTypesXML),
             (''_rels/.rels'', rootRelsXML),
             (''word/document.xml'', buildDocumentXML title paragraphs)])"
  using assms by (rule writeDocx_success)

text \<open>The theorem where nothing fails, for an article with one paragraph.\<close>

theorem writeDocx_three_entries_witness:
  "fst (writeDocx no_failures Map.empty (''output'', ''Go.docx'') ''Go'' [''A language.'']) = None
   \<and> snd (writeDocx no_failures Map.empty (''output'', ''Go.docx'') ''Go'' [''A language.''])
       = [(''output'', ''Go.docx'') \<mapsto> Complete
            [(''[Content_Types].xml'', contentTypesXML),
             (''_rels/.rels'', rootRelsXML),
             (''word/document.xml'', buildDocumentXML ''Go'' [''A language.''])]]"
  using writeDocx_three_entries
    [of no_failures Map.empty "(''output'', ''Go.docx'')" "''Go''" "[''A language.'']"
        "snd (writeDocx no_failures Map.empty (''output'', ''Go.docx'') ''Go'' [''A language.''])"]
  by (simp add: writeDocx_no_failures)

lemma FetchArticle_Inr:
  assumes "FetchArticle api title = Inr article"
  shows "\<exists>p ps. api title = Reply 200 (Inr (p # ps)) \<and>
           article = \<lparr>Title = page_title p, Content = page_extract p\<rparr>"
  using assms unfolding FetchArticle_def
  by (auto split: response.splits if_splits sum.splits list.splits)

text \<open>
  Claim C9. When the article is fetched and written, the file that appears is named
  after the title of the article that \<open>FetchArticle\<close> returned, which is the title of the
  first page of the reply and not the title asked for: the file system changes at
  \<open>safeFilename (Title article) @ ''.docx''\<close> in the output directory and nowhere else.
\<close>

theorem processArticle_file_name:
  assumes "FetchArticle api title = Inr article"
    and "processArticle api env fs title outDir = (None, fs')"
  shows "(\<exists>p ps. api title = Reply 200 (Inr (p # ps)) \<and> Title article = page_title p) \<and>
         (\<exists>doc. fs' = fs((outDir, safeFilename (Title article) @ ''.docx'') \<mapsto> Complete doc))"
proof
  from FetchArticle_Inr[OF assms(1)]
  show "\<exists>p ps. api title = Reply 200 (Inr (p # ps)) \<and> Title article = page_title p"
    by auto
  from assms have "Build env fs (Title article) (Content article) outDir = (None, fs')"
    unfolding processArticle_def by (auto split: option.splits prod.splits)
  from Build_success[OF this]
  show "\<exists>doc. fs' = fs((outDir, safeFilename (Title article) @ ''.docx'') \<mapsto> Complete doc)"
    by blast
qed

lemma safeFilename_United_Kingdom: "safeFilename ''United Kingdom'' = ''United_Kingdom''"
  by (simp add: safeFilename_def Trim_def trimLeftByte_def trimRightByte_def
        unsafeChar_def unsafeChars_def)

text \<open>
  The theorem where the title \<open>UK\<close> is asked for and the reply holds the page
  \<open>United Kingdom\<close>: the file is \<open>United_Kingdom.docx\<close>, and no file \<open>UK.docx\<close> appears.
\<close>

theorem processArticle_file_name_witness:
  "FetchArticle
     (\<lambda>t. Reply 200 (Inr [\<lparr>page_title = ''United Kingdom'', page_extract = ''A country.''\<rparr>]))
     ''UK'' = Inr \<lparr>Title = ''United Kingdom'', Content = ''A country.''\<rparr>
   \<and> fst (processArticle
       (\<lambda>t. Reply 200 (Inr [\<lparr>page_title = ''United Kingdom'', page_extract = ''A country.''\<rparr>]))
       no_failures Map.empty ''UK'' ''output'') = None
   \<and> snd (processArticle
       (\<lambda>t. Reply 200 (Inr [\<lparr>page_title = ''United Kingdom'', page_extract = ''A country.''\<rparr>]))
       no_failures Map.empty ''UK'' ''output'') (''output'', ''United_Kingdom.docx'') \<noteq> None
   \<and> snd (processArticle
       (\<lambda>t. Reply 200 (Inr [\<lparr>page_title = ''United Kingdom'', page_extract = ''A country.''\<rparr>]))
       no_failures Map.empty ''UK'' ''output'') (''output'', ''UK.docx'') = None"
proof -
  let ?api = "\<lambda>t :: string. (Reply 200 (Inr [\<lparr>page_title = ''United Kingdom'', page_extract = ''A country.''\<rparr>])
                  :: page list response)"
  let ?article = "\<lparr>Title = ''United Kingdom'', Content = ''A country.''\<rparr>"
  let ?run = "processArticle ?api no_failures Map.empty ''UK'' ''output''"
  have fetch: "FetchArticle ?api ''UK'' = Inr ?article"
    by (simp add: FetchArticle_def)
  have ok: "fst ?run = None"
    by (simp add: processArticle_def fetch Build_def no_failures_def
          writeDocx_no_failures[unfolded no_failures_def])
  then have run: "?run = (None, snd ?run)"
    by (metis prod.collapse)
  from processArticle_file_name[OF fetch run]
  obtain doc where "snd ?run = [(''output'', safeFilename ''United Kingdom'' @ ''.docx'') \<mapsto> Complete doc]"
    by auto
  then have "snd ?run = [(''output'', ''United_Kingdom.docx'') \<mapsto> Complete doc]"
    by (simp add: safeFilename_United_Kingdom)
  then have "snd ?run (''output'', ''United_Kingdom.docx'') \<noteq> None"
    and "snd ?run (''output'', ''UK.docx'') = None"
    by simp_all
  with fetch ok show ?thesis by simp
qed

section \<open>Verification: the worker pool\<close>

lemma spawn_workers_eq: "spawn_workers i nWorkers spawned = spawned + nat (nWorkers - i)"
proof (induction i nWorkers spawned rule: spawn_workers.induct)
  case (1 i nWorkers spawned)
  show ?case
  proof (cases "i < nWorkers")
    case True
    with "1.IH" show ?thesis
      by (subst spawn_workers.simps) (simp add: nat_diff_distrib')
  next
    case False
    then show ?thesis by (subst spawn_workers.simps) simp
  qed
qed

lemma no_worker_no_step: "running s = 0 \<Longrightarrow> \<not> pool_step succeeds s s'"
  by (auto elim: pool_step.cases)

lemma pool_step_invariant:
  assumes "pool_step succeeds s s'"
    and "taken s @ titlesCh s = titles"
    and "titlesCh s \<noteq> [] \<longrightarrow> running s = n"
  shows "taken s' @ titlesCh s' = titles \<and> (titlesCh s' \<noteq> [] \<longrightarrow> running s' = n)"
  using assms by (induction rule: pool_step.induct) auto

lemma pool_run_invariant:
  assumes "rtranclp (pool_step succeeds) (start_pool titles nWorkers) s"
  shows "taken s @ titlesCh s = titles \<and>
         (titlesCh s \<noteq> [] \<longrightarrow> running s = spawn_workers 0 nWorkers 0)"
  using assms
proof (induction rule: rtranclp_induct)
  case base
  show ?case by (simp add: start_pool_def)
next
  case (step s s')
  from pool_step_invariant[OF step.hyps(2)] step.IH show ?case by blast
qed

text \<open>
  With one worker or more the pool does its work: whenever \<open>wg.Wait()\<close> returns, the
  channel is empty and every title was taken once, in the order of the channel.
\<close>

lemma pool_drained:
  assumes "rtranclp (pool_step succeeds) (start_pool titles nWorkers) s"
    and "Wait_returns s" and "1 \<le> nWorkers"
  shows "titlesCh s = [] \<and> taken s = titles"
proof -
  from assms(3) have "0 < spawn_workers 0 nWorkers 0" by (simp add: spawn_workers_eq)
  with pool_run_invariant[OF assms(1)] assms(2) show ?thesis
    by (cases "titlesCh s = []") (auto simp: Wait_returns_def)
qed

text \<open>
  Claim C8 fails on the code, which neither rejects nor clamps the number of workers.
  With \<open>-workers 0\<close> (and likewise with \<open>-w -3\<close>) the loop that starts the pool spawns
  no worker; \<open>wg.Wait()\<close> returns at once; no step of the pool is possible, so the two
  titles stay in the channel and none is passed to \<open>processArticle\<close>; and the summary
  printed at the end counts both titles as succeeded. With \<open>-w 0\<close> the alias counts as
  not set and the five workers of the default are spawned.
\<close>

theorem zero_workers_drain_nothing:
  "merge_aliases 0 0 0 = 0
   \<and> spawn_workers 0 (merge_aliases 0 0 0) 0 = 0
   \<and> spawn_workers 0 (merge_aliases 5 0 (- 3)) 0 = 0
   \<and> spawn_workers 0 (merge_aliases 5 0 0) 0 = 5
   \<and> Wait_returns (start_pool [''Alan Turing'', ''Colonnaden''] 0)
   \<and> (\<forall>s'. \<not> pool_step (\<lambda>t. True) (start_pool [''Alan Turing'', ''Colonnaden''] 0) s')
   \<and> titlesCh (start_pool [''Alan Turing'', ''Colonnaden''] 0) = [''Alan Turing'', ''Colonnaden'']
   \<and> taken (start_pool [''Alan Turing'', ''Colonnaden''] 0) = []
   \<and> summary [''Alan Turing'', ''Colonnaden''] (start_pool [''Alan Turing'', ''Colonnaden''] 0) = (2, 0)"
  by (simp add: merge_aliases_def spawn_workers_eq start_pool_def Wait_returns_def
        summary_def no_worker_no_step)

section \<open>Verification: random titles\<close>





lemma GetRandomTitles_loop_stop:
  assumes "\<not> (int (card (uniqueTitles st)) < limit \<and> attempts st < maxAttempts)"
  shows "GetRandomTitles_loop endpoint limit maxAttempts st = Some (st, None)"
  by (subst GetRandomTitles_loop.simps) (rule if_not_P[OF assms])















text \<open>
  Claim C10. For every \<open>limit\<close> that is zero or negative, \<open>GetRandomTitles\<close> returns the
  empty list and no error, and no request has been sent: the run ends in its initial
  state, in which the numbers of attempts and of requests are zero.
\<close>

theorem GetRandomTitles_nonpositive:
  "limit \<le> 0 \<Longrightarrow>
   GetRandomTitles endpoint limit = Some ([], None) \<and>
   GetRandomTitles_run endpoint limit
     = Some (\<lparr>uniqueTitles = {}, result = [], attempts = 0, requests = 0\<rparr>, None)"
  by (simp add: GetRandomTitles_def GetRandomTitles_run_def GetRandomTitles_loop_stop)

theorem GetRandomTitles_nonpositive_witness:
  "(- 5 :: int) \<le> 0 \<and>
   GetRandomTitles (\<lambda>k batchSize. Some (Reply 200 (Inr [''Go'']))) (- 5) = Some ([], None) \<and>
   GetRandomTitles_run (\<lambda>k batchSize. Some (Reply 200 (Inr [''Go'']))) (- 5)
     = Some (\<lparr>uniqueTitles = {}, result = [], attempts = 0, requests = 0\<rparr>, None)"
  using GetRandomTitles_nonpositive[of "- 5" "\<lambda>k batchSize. Some (Reply 200 (Inr [''Go'']))"]
  by simp

section \<open>Verification: the document\<close>

lemma mod_in_block:
  fixes b q m :: nat
  assumes "q * m \<le> b" and "b < q * m + m"
  shows "b mod m = b - q * m"
proof -
  from assms have "b - q * m < m" by simp
  moreover from assms have "b = (b - q * m) + q * m" by simp
  then have "b mod m = (b - q * m) mod m" by (metis mod_mult_self1)
  ultimately show ?thesis by simp
qed

lemma take_1_nth: "s \<noteq> [] \<Longrightarrow> take (Suc 0) s = [s ! 0]"
  by (cases s) simp_all

lemma take_2_nth: "2 \<le> length s \<Longrightarrow> take 2 s = [s ! 0, s ! 1]"
  by (cases s; cases "tl s") (simp_all add: numeral_2_eq_2)

lemma take_3_nth: "3 \<le> length s \<Longrightarrow> take 3 s = [s ! 0, s ! 1, s ! 2]"
  by (cases s; cases "tl s"; cases "tl (tl s)") (simp_all add: numeral_3_eq_3 numeral_2_eq_2)

lemma DecodeRune_not_ascii:
  assumes "\<not> (of_char c :: nat) < 0x80" and "DecodeRune (c # s) = (r, w)"
  shows "(r = RuneError \<and> w = 1) \<or>
         (0x80 \<le> r \<and> 2 \<le> w \<and> w \<le> Suc (length s) \<and>
          (\<forall>b \<in> set (take (w - 1) s). (0x80 :: nat) \<le> of_char b))"
proof -
  define b0 where "b0 = (of_char c :: nat)"
  define sz where "sz = (if b0 < 0xE0 then 2 else if b0 < 0xF0 then 3 else 4 :: nat)"
  define lo where "lo = (if b0 = 0xE0 then 0xA0 else if b0 = 0xF0 then 0x90 else 0x80 :: nat)"
  define hi where "hi = (if b0 = 0xED then 0x9F else if b0 = 0xF4 then 0x8F else 0xBF :: nat)"
  define b1 where "b1 = (of_char (s ! 0) :: nat)"
  define b2 where "b2 = (of_char (s ! 1) :: nat)"
  define b3 where "b3 = (of_char (s ! 2) :: nat)"
  have lo: "0x80 \<le> lo" by (simp add: lo_def)
  have unfold: "DecodeRune (c # s) =
     (if b0 < 0xC2 \<or> 0xF4 < b0 then (RuneError, 1)
      else if Suc (length s) < sz then (RuneError, 1)
      else if b1 < lo \<or> hi < b1 then (RuneError, 1)
      else if sz \<le> 2 then ((b0 mod 0x20) * 0x40 + b1 mod 0x40, 2)
      else if b2 < 0x80 \<or> 0xBF < b2 then (RuneError, 1)
      else if sz \<le> 3 then ((b0 mod 0x10) * 0x1000 + (b1 mod 0x40) * 0x40 + b2 mod 0x40, 3)
      else if b3 < 0x80 \<or> 0xBF < b3 then (RuneError, 1)
      else ((b0 mod 8) * 0x40000 + (b1 mod 0x40) * 0x1000 + (b2 mod 0x40) * 0x40
              + b3 mod 0x40, 4))"
    unfolding b0_def sz_def lo_def hi_def b1_def b2_def b3_def
    by (simp only: DecodeRune.simps Let_def if_not_P[OF assms(1)] length_Cons)
  have sz: "sz = 2 \<or> sz = 3 \<or> sz = 4" by (simp add: sz_def)
  have two: "0x80 \<le> b0 mod 0x20 * 0x40 + b1 mod 0x40" if "\<not> (b0 < 0xC2 \<or> 0xF4 < b0)" "sz \<le> 2"
  proof -
    from that have "0xC2 \<le> b0" "b0 < 0xE0" by (simp_all add: sz_def split: if_splits)
    then have "2 \<le> b0 mod 0x20" using mod_in_block[of 6 "0x20" b0] by simp
    then show ?thesis by simp
  qed
  have three: "0x80 \<le> b0 mod 0x10 * 0x1000 + b1 mod 0x40 * 0x40 + b2 mod 0x40"
    if "\<not> sz \<le> 2" "sz \<le> 3" "\<not> (b1 < lo \<or> hi < b1)"
  proof -
    from that have b0: "0xE0 \<le> b0" "b0 < 0xF0" by (simp_all add: sz_def split: if_splits)
    show ?thesis
    proof (cases "b0 = 0xE0")
      case True
      with that have "0xA0 \<le> b1" "b1 \<le> 0xBF" by (simp_all add: lo_def hi_def)
      then have "0x20 \<le> b1 mod 0x40" using mod_in_block[of 2 "0x40" b1] by simp
      then show ?thesis by simp
    next
      case False
      with b0 have "1 \<le> b0 mod 0x10" using mod_in_block[of 14 "0x10" b0] by simp
      then show ?thesis by simp
    qed
  qed
  have four: "0x80 \<le> b0 mod 8 * 0x40000 + b1 mod 0x40 * 0x1000 + b2 mod 0x40 * 0x40 + b3 mod 0x40"
    if "\<not> (b0 < 0xC2 \<or> 0xF4 < b0)" "\<not> sz \<le> 3" "\<not> (b1 < lo \<or> hi < b1)"
  proof -
    from that have b0: "0xF0 \<le> b0" "b0 \<le> 0xF4" by (simp_all add: sz_def split: if_splits)
    show ?thesis
    proof (cases "b0 = 0xF0")
      case True
      with that have "0x90 \<le> b1" "b1 \<le> 0xBF" by (simp_all add: lo_def hi_def)
      then have "0x10 \<le> b1 mod 0x40" using mod_in_block[of 2 "0x40" b1] by simp
      then show ?thesis by simp
    next
      case False
      with b0 have "1 \<le> b0 mod 8" using mod_in_block[of 30 8 b0] by simp
      then show ?thesis by simp
    qed
  qed
  have bytes2: "\<forall>b \<in> set (take (Suc 0) s). (0x80 :: nat) \<le> of_char b"
    if "\<not> Suc (length s) < sz" "\<not> (b1 < lo \<or> hi < b1)"
  proof -
    from that(1) sz have "s \<noteq> []" by auto
    with that(2) lo show ?thesis by (simp add: take_1_nth b1_def)
  qed
  have bytes3: "\<forall>b \<in> set (take 2 s). (0x80 :: nat) \<le> of_char b"
    if "\<not> Suc (length s) < sz" "\<not> sz \<le> 2" "\<not> (b1 < lo \<or> hi < b1)" "\<not> (b2 < 0x80 \<or> 0xBF < b2)"
  proof -
    from that(1,2) have "2 \<le> length s" by simp
    with that(3,4) lo show ?thesis by (simp add: take_2_nth b1_def b2_def)
  qed
  have bytes4: "\<forall>b \<in> set (take 3 s). (0x80 :: nat) \<le> of_char b"
    if "\<not> Suc (length s) < sz" "\<not> sz \<le> 3" "\<not> (b1 < lo \<or> hi < b1)"
       "\<not> (b2 < 0x80 \<or> 0xBF < b2)" "\<not> (b3 < 0x80 \<or> 0xBF < b3)"
  proof -
    from that(1,2) have "3 \<le> length s" by simp
    with that(3,4,5) lo show ?thesis by (simp add: take_3_nth b1_def b2_def b3_def)
  qed
  have len: "Suc 0 \<le> length s" if "s \<noteq> []"
    using that by (cases s) simp_all
  from assms(2)[unfolded unfold] show ?thesis
    using two three four bytes2 bytes3 bytes4 sz
    by (auto split: if_splits intro: len)
qed

lemma escapeRune_Some_bytes:
  "escapeRune r w = Some esc \<Longrightarrow> CHR ''<'' \<notin> set esc"
  by (auto simp: escapeRune_def split: if_splits)

lemma of_char_eq_numeral: "(of_char c :: nat) = of_char d \<Longrightarrow> c = d"
  by (metis char_of_char)

lemma copied_bytes:
  assumes d: "DecodeRune (c # s) = (r, w)" and e: "escapeRune r w = None"
  shows "\<forall>b \<in> set (take w (c # s)). b \<noteq> CHR ''<'' \<and> b \<noteq> CHR ''&''"
proof (cases "(of_char c :: nat) < 0x80")
  case True
  with d have rw: "r = of_char c" "w = 1" by (simp_all add: DecodeRune_ascii)
  from e rw have "(of_char c :: nat) \<noteq> 0x3C" "(of_char c :: nat) \<noteq> 0x26"
    by (auto simp: escapeRune_def split: if_splits)
  then have "c \<noteq> CHR ''<''" "c \<noteq> CHR ''&''" by auto
  with rw show ?thesis by simp
next
  case False
  from e have "\<not> (r = RuneError \<and> w = 1)"
    by (auto simp: escapeRune_def RuneError_def split: if_splits)
  with DecodeRune_not_ascii[OF False d]
  have w: "2 \<le> w" and bytes: "\<forall>b \<in> set (take (w - 1) s). (0x80 :: nat) \<le> of_char b"
    by auto
  from w have t: "take w (c # s) = c # take (w - 1) s"
    by (cases w) simp_all
  have "b \<noteq> CHR ''<'' \<and> b \<noteq> CHR ''&''" if "(0x80 :: nat) \<le> of_char b" for b
    using that by auto
  with False bytes show ?thesis unfolding t by auto
qed

lemma EscapeText_no_lt: "b \<in> set (EscapeText s) \<Longrightarrow> b \<noteq> CHR ''<''"
proof (induction s arbitrary: b rule: EscapeText.induct)
  case 1
  then show ?case by simp
next
  case (2 c s)
  obtain r w where d: "DecodeRune (c # s) = (r, w)" by (cases "DecodeRune (c # s)")
  from "2.prems" d consider
      (piece) "b \<in> set (case escapeRune r w of Some esc \<Rightarrow> esc | None \<Rightarrow> take w (c # s))"
    | (rest) "b \<in> set (EscapeText (drop w (c # s)))"
    by auto
  then show ?case
  proof cases
    case piece
    show ?thesis
    proof (cases "escapeRune r w")
      case None
      with piece copied_bytes[OF d None] show ?thesis by auto
    next
      case (Some esc)
      with piece escapeRune_Some_bytes[OF Some] show ?thesis by auto
    qed
  next
    case rest
    from "2.IH"[OF d[symmetric] rest] show ?thesis .
  qed
qed

lemma xml_unescape_plain:
  "CHR ''&'' \<notin> set p \<Longrightarrow> xml_unescape (p @ rest) = p @ xml_unescape rest"
  by (induction p) auto

lemma char_of_values:
  "char_of (34 :: nat) = CHR 0x22"
  "char_of (39 :: nat) = CHR 0x27"
  "char_of (9 :: nat) = CHR 0x09"
  "char_of (10 :: nat) = CHR 0x0A"
  "char_of (13 :: nat) = CHR 0x0D"
  by (rule of_char_eq_numeral, simp)+

lemma xml_unescape_references:
  \<open>xml_unescape (''&#34;'' @ rest) = CHR 0x22 # xml_unescape rest\<close>
  \<open>xml_unescape (''&#39;'' @ rest) = CHR 0x27 # xml_unescape rest\<close>
  \<open>xml_unescape (''&amp;'' @ rest) = CHR ''&'' # xml_unescape rest\<close>
  \<open>xml_unescape (''&lt;'' @ rest) = CHR ''<'' # xml_unescape rest\<close>
  \<open>xml_unescape (''&gt;'' @ rest) = CHR ''>'' # xml_unescape rest\<close>
  \<open>xml_unescape (''&#x9;'' @ rest) = CHR 0x09 # xml_unescape rest\<close>
  \<open>xml_unescape (''&#xA;'' @ rest) = CHR 0x0A # xml_unescape rest\<close>
  \<open>xml_unescape (''&#xD;'' @ rest) = CHR 0x0D # xml_unescape rest\<close>
  by (simp_all add: reference_text_def digit_value_def EncodeRune_def char_of_values)

lemma special_rune_ascii:
  assumes d: "DecodeRune (c # s) = (r, w)" and r: "r < 0x80"
  shows "w = 1 \<and> (of_char c :: nat) = r"
proof (cases "(of_char c :: nat) < 0x80")
  case True
  with d show ?thesis by (simp add: DecodeRune_ascii)
next
  case False
  from DecodeRune_not_ascii[OF False d] r show ?thesis
    by (auto simp: RuneError_def)
qed

lemma escaped_rune:
  assumes d: "DecodeRune (c # s) = (r, w)"
    and e: "escapeRune r w = Some esc"
    and ok: "isInCharacterRange r" "\<not> (r = RuneError \<and> w = 1)"
  shows "w = 1 \<and> xml_unescape (esc @ rest) = c # xml_unescape rest"
proof -
  from e ok have r: "r = 0x22 \<or> r = 0x27 \<or> r = 0x26 \<or> r = 0x3C \<or> r = 0x3E
      \<or> r = 0x09 \<or> r = 0x0A \<or> r = 0x0D"
    by (auto simp: escapeRune_def RuneError_def split: if_splits)
  then have "r < 0x80" by auto
  from special_rune_ascii[OF d this] have w: "w = 1" and c: "(of_char c :: nat) = r"
    by simp_all
  have char: "c = d" if "r = of_char d" for d
    using c that by (intro of_char_eq_numeral) simp
  from r e show ?thesis
    by (auto simp: escapeRune_def w xml_unescape_references
          char[of "CHR 0x22"] char[of "CHR 0x27"] char[of "CHR ''&''"] char[of "CHR ''<''"]
          char[of "CHR ''>''"] char[of "CHR 0x09"] char[of "CHR 0x0A"] char[of "CHR 0x0D"]
          simp del: xml_unescape.simps append.simps)
qed

lemma invalid_rune:
  assumes "\<not> (isInCharacterRange r \<and> \<not> (r = RuneError \<and> w = 1))"
  shows "escapeRune r w = Some [CHR 0xEF, CHR 0xBF, CHR 0xBD]"
  using assms by (auto simp: escapeRune_def isInCharacterRange_def RuneError_def)

lemma xml_unescape_EscapeText_replace_invalid:
  "xml_unescape (EscapeText s) = replace_invalid s"
proof (induction s rule: EscapeText.induct)
  case 1
  show ?case by simp
next
  case (2 c s)
  obtain r w where d: "DecodeRune (c # s) = (r, w)" by (cases "DecodeRune (c # s)")
  from "2.IH"[OF d[symmetric]]
  have ih: "xml_unescape (EscapeText (drop w (c # s))) = replace_invalid (drop w (c # s))" .
  show ?case
  proof (cases "isInCharacterRange r \<and> \<not> (r = RuneError \<and> w = 1)")
    case True
    then have ok: "isInCharacterRange r" "\<not> (r = RuneError \<and> w = 1)" by simp_all
    from d True have ri: "replace_invalid (c # s) = take w (c # s) @ replace_invalid (drop w (c # s))"
      by simp
    show ?thesis
    proof (cases "escapeRune r w")
      case None
      from copied_bytes[OF d None] have "CHR ''&'' \<notin> set (take w (c # s))" by auto
      from xml_unescape_plain[OF this]
      have "xml_unescape (take w (c # s) @ EscapeText (drop w (c # s))) =
            take w (c # s) @ replace_invalid (drop w (c # s))"
        by (simp only: ih)
      with d None ri show ?thesis by (simp del: xml_unescape.simps replace_invalid.simps)
    next
      case (Some esc)
      from escaped_rune[OF d Some ok, of "EscapeText (drop w (c # s))"]
      have w: "w = 1"
        and u: "xml_unescape (esc @ EscapeText (drop w (c # s))) = c # xml_unescape (EscapeText (drop w (c # s)))"
        by blast+
      from u ih have "xml_unescape (esc @ EscapeText (drop w (c # s))) = c # replace_invalid (drop w (c # s))"
        by simp
      moreover from ri w have "replace_invalid (c # s) = c # replace_invalid (drop w (c # s))"
        by simp
      ultimately show ?thesis using d Some
        by (simp del: xml_unescape.simps replace_invalid.simps)
    qed
  next
    case False
    from invalid_rune[OF False] have e: "escapeRune r w = Some [CHR 0xEF, CHR 0xBF, CHR 0xBD]" .
    from d False have ri: "replace_invalid (c # s) =
        [CHR 0xEF, CHR 0xBF, CHR 0xBD] @ replace_invalid (drop w (c # s))"
      by simp
    have "CHR ''&'' \<notin> set [CHR 0xEF, CHR 0xBF, CHR 0xBD]" by simp
    from xml_unescape_plain[OF this]
    have "xml_unescape ([CHR 0xEF, CHR 0xBF, CHR 0xBD] @ EscapeText (drop w (c # s))) =
          [CHR 0xEF, CHR 0xBF, CHR 0xBD] @ replace_invalid (drop w (c # s))"
      by (simp only: ih)
    with d e ri show ?thesis by (simp del: xml_unescape.simps replace_invalid.simps)
  qed
qed

lemma replace_invalid_xml_chars: "xml_chars s \<Longrightarrow> replace_invalid s = s"
proof (induction s rule: replace_invalid.induct)
  case 1
  show ?case by simp
next
  case (2 c s)
  obtain r w where d: "DecodeRune (c # s) = (r, w)" by (cases "DecodeRune (c # s)")
  from "2.prems" d have ok: "isInCharacterRange r \<and> \<not> (r = RuneError \<and> w = 1)"
    and rest: "xml_chars (drop w (c # s))"
    by simp_all
  from "2.IH"[OF d[symmetric] rest] have "replace_invalid (drop w (c # s)) = drop w (c # s)" .
  with d ok show ?case by simp
qed

lemma xml_tokens_tag:
  "xml_tokens (CHR ''<'' # r) =
     Text [] # Tag (takeWhile (\<lambda>c. c \<noteq> CHR ''>'') r) #
     xml_tokens (drop 1 (dropWhile (\<lambda>c. c \<noteq> CHR ''>'') r))"
  by (subst xml_tokens.simps) simp

lemma xml_tokens_text:
  assumes "\<And>b. b \<in> set t \<Longrightarrow> b \<noteq> CHR ''<''"
  shows "xml_tokens (t @ CHR ''<'' # r) =
     Text t # Tag (takeWhile (\<lambda>c. c \<noteq> CHR ''>'') r) #
     xml_tokens (drop 1 (dropWhile (\<lambda>c. c \<noteq> CHR ''>'') r))"
proof -
  from assms have "takeWhile (\<lambda>c. c \<noteq> CHR ''<'') (t @ CHR ''<'' # r) = t"
    by (simp add: takeWhile_tail)
  moreover from assms have "dropWhile (\<lambda>c. c \<noteq> CHR ''<'') (t @ CHR ''<'' # r) = CHR ''<'' # r"
    by (simp add: dropWhile_append3)
  ultimately show ?thesis by (subst xml_tokens.simps) simp
qed

lemma xml_tokens_xmlEscape:
  "xml_tokens (xmlEscape t @ CHR ''<'' # r) =
     Text (xmlEscape t) # Tag (takeWhile (\<lambda>c. c \<noteq> CHR ''>'') r) #
     xml_tokens (drop 1 (dropWhile (\<lambda>c. c \<noteq> CHR ''>'') r))"
  by (rule xml_tokens_text) (simp add: xmlEscape_def EscapeText_no_lt)

lemma xml_tokens_Nil: "xml_tokens [] = [Text []]"
  by (subst xml_tokens.simps) simp

lemma text_runs_Tag_tokens:
  "\<not> is_text_element t \<Longrightarrow> text_runs (Tag t # xml_tokens rest) = text_runs (xml_tokens rest)"
  by (subst (1 2) xml_tokens.simps) simp

lemma buildDocumentXML_loop_eq:
  "buildDocumentXML_loop paragraphs b = b @ concat (map paragraph_xml paragraphs)"
  by (induction paragraphs arbitrary: b) (simp_all add: paragraph_xml_def)

lemma text_runs_paragraph:
  "text_runs (xml_tokens (paragraph_xml p @ rest)) =
     xml_unescape (xmlEscape p) # text_runs (xml_tokens rest)"
  by (simp add: paragraph_xml_def xml_tokens_tag xml_tokens_xmlEscape text_runs_Tag_tokens
        is_text_element_def)

lemma text_runs_paragraphs:
  "text_runs (xml_tokens (concat (map paragraph_xml paragraphs) @ rest)) =
     map (\<lambda>p. xml_unescape (xmlEscape p)) paragraphs @ text_runs (xml_tokens rest)"
  by (induction paragraphs) (simp_all add: text_runs_paragraph)

lemma buildDocumentXML_eq:
  \<open>buildDocumentXML title paragraphs =
     ''<?xml version="1.0" encoding="UTF-8" standalone="yes"?>''
     @ ''<w:document xmlns:w="http://schemas.openxmlformats.org/wordprocessingml/2006/main">''
     @ ''<w:body>''
     @ ''<w:p><w:r><w:rPr><w:b/><w:sz w:val="48"/></w:rPr><w:t xml:space="preserve">''
     @ xmlEscape title
     @ ''</w:t></w:r></w:p>''
     @ concat (map paragraph_xml paragraphs)
     @ (''<w:sectPr><w:pgSz w:w="12240" w:h="15840"/><w:pgMar w:top="1440" w:right="1440" w:bottom="1440" w:left="1440" w:header="708" w:footer="708" w:gutter="0"/></w:sectPr>''
        @ ''</w:body></w:document>'')\<close>
  unfolding buildDocumentXML_def Let_def buildDocumentXML_loop_eq by (simp only: append_assoc)

lemma document_text_runs_buildDocumentXML:
  "document_text_runs (buildDocumentXML title paragraphs) =
     map (\<lambda>t. xml_unescape (xmlEscape t)) (title # paragraphs)"
  unfolding document_text_runs_def buildDocumentXML_eq
  by (simp add: xml_tokens_tag xml_tokens_xmlEscape text_runs_Tag_tokens is_text_element_def
        text_runs_paragraphs xml_tokens_Nil del: append_assoc)

lemma paragraphs_paragraph:
  "map text_runs (paragraph_tokens (xml_tokens (paragraph_xml p @ rest))) =
     [xml_unescape (xmlEscape p)] # map text_runs (paragraph_tokens (xml_tokens rest))"
  by (simp add: paragraph_xml_def xml_tokens_tag xml_tokens_xmlEscape is_text_element_def)

lemma paragraphs_paragraphs:
  "map text_runs (paragraph_tokens (xml_tokens (concat (map paragraph_xml paragraphs) @ rest))) =
     map (\<lambda>p. [xml_unescape (xmlEscape p)]) paragraphs
     @ map text_runs (paragraph_tokens (xml_tokens rest))"
  by (induction paragraphs) (simp_all add: paragraphs_paragraph)

lemma document_paragraphs_buildDocumentXML:
  "document_paragraphs (buildDocumentXML title paragraphs) =
     map (\<lambda>t. [xml_unescape (xmlEscape t)]) (title # paragraphs)"
  unfolding document_paragraphs_def buildDocumentXML_eq
  by (simp add: xml_tokens_tag xml_tokens_xmlEscape is_text_element_def
        paragraphs_paragraphs xml_tokens_Nil del: append_assoc)

lemma xml_chars_example:
  "xml_chars ''Tom & Jerry''"
  "xml_chars ''a < b''"
  "xml_chars [CHR 0xD1, CHR 0x8F]"
  by (simp_all add: DecodeRune.simps isInCharacterRange_def RuneError_def Let_def)

lemma replace_invalid_example:
  "replace_invalid [CHR 0x01] = [CHR 0xEF, CHR 0xBF, CHR 0xBD]"
  "replace_invalid [CHR ''a'', CHR 0x0C, CHR ''b''] = [CHR ''a'', CHR 0xEF, CHR 0xBF, CHR 0xBD, CHR ''b'']"
  "replace_invalid [CHR ''a'', CHR 0xFF, CHR ''b''] = [CHR ''a'', CHR 0xEF, CHR 0xBF, CHR 0xBD, CHR ''b'']"
  by (simp_all add: DecodeRune.simps isInCharacterRange_def RuneError_def Let_def)

lemma document_read_back:
  "document_paragraphs (buildDocumentXML title paragraphs) =
     map (\<lambda>t. [replace_invalid t]) (title # paragraphs)"
  "document_text_runs (buildDocumentXML title paragraphs) =
     map replace_invalid (title # paragraphs)"
  "document_text (buildDocumentXML title paragraphs) =
     concat (map replace_invalid (title # paragraphs))"
  by (simp_all only: document_paragraphs_buildDocumentXML document_text_runs_buildDocumentXML
        document_text_def xmlEscape_def xml_unescape_EscapeText_replace_invalid)

text \<open>
  Claim C1, as amended. For every title and every list of paragraphs, the document has
  exactly one paragraph for the title followed by exactly one paragraph for each chunk, in
  their order, and each of these paragraphs has exactly one text run. What a reader finds
  in the run, with the references resolved, is the text of the title or of the chunk in
  which U+FFFD stands for every byte that is not UTF-8 and for every rune that is no
  character of XML (\<open>replace_invalid\<close>). So when the title and the chunks are UTF-8 texts
  of XML characters, the paragraphs are the title and the chunks themselves, each exactly
  once, and the text of the document is the title followed by the chunks.
\<close>

theorem buildDocumentXML_text:
  "document_paragraphs (buildDocumentXML title paragraphs) =
     map (\<lambda>t. [replace_invalid t]) (title # paragraphs)
   \<and> document_text_runs (buildDocumentXML title paragraphs) =
       map replace_invalid (title # paragraphs)
   \<and> document_text (buildDocumentXML title paragraphs) =
       concat (map replace_invalid (title # paragraphs))
   \<and> (xml_chars title \<longrightarrow> (\<forall>p \<in> set paragraphs. xml_chars p) \<longrightarrow>
        document_paragraphs (buildDocumentXML title paragraphs) =
          map (\<lambda>t. [t]) (title # paragraphs) \<and>
        document_text_runs (buildDocumentXML title paragraphs) = title # paragraphs \<and>
        document_text (buildDocumentXML title paragraphs) = title @ concat paragraphs)"
proof (intro conjI impI)
  show "document_paragraphs (buildDocumentXML title paragraphs) =
     map (\<lambda>t. [replace_invalid t]) (title # paragraphs)"
    by (rule document_read_back)
  show "document_text_runs (buildDocumentXML title paragraphs) =
     map replace_invalid (title # paragraphs)"
    by (rule document_read_back)
  show "document_text (buildDocumentXML title paragraphs) =
     concat (map replace_invalid (title # paragraphs))"
    by (rule document_read_back)
  assume "xml_chars title" and "\<forall>p \<in> set paragraphs. xml_chars p"
  then have same: "replace_invalid title = title" "map replace_invalid paragraphs = paragraphs"
    by (simp_all add: replace_invalid_xml_chars map_idI)
  have each: "map (\<lambda>t. [replace_invalid t]) paragraphs = map (\<lambda>t. [t]) paragraphs"
    using \<open>\<forall>p \<in> set paragraphs. xml_chars p\<close> by (simp add: replace_invalid_xml_chars)
  show "document_paragraphs (buildDocumentXML title paragraphs) =
      map (\<lambda>t. [t]) (title # paragraphs)"
    by (simp only: document_read_back list.map same each)
  show "document_text_runs (buildDocumentXML title paragraphs) = title # paragraphs"
    by (simp only: document_read_back list.map same)
  show "document_text (buildDocumentXML title paragraphs) = title @ concat paragraphs"
    by (simp only: document_read_back list.map same concat.simps)
qed

text \<open>
  The theorem for the title \<open>Tom & Jerry\<close> and two paragraphs, one with an angle bracket
  and one with a Cyrillic letter.
\<close>

theorem buildDocumentXML_text_witness:
  "xml_chars ''Tom & Jerry''
   \<and> xml_chars ''a < b''
   \<and> xml_chars [CHR 0xD1, CHR 0x8F]
   \<and> document_paragraphs (buildDocumentXML ''Tom & Jerry'' [''a < b'', [CHR 0xD1, CHR 0x8F]])
       = [[''Tom & Jerry''], [''a < b''], [[CHR 0xD1, CHR 0x8F]]]
   \<and> document_text_runs (buildDocumentXML ''Tom & Jerry'' [''a < b'', [CHR 0xD1, CHR 0x8F]])
       = [''Tom & Jerry'', ''a < b'', [CHR 0xD1, CHR 0x8F]]
   \<and> document_text (buildDocumentXML ''Tom & Jerry'' [''a < b'', [CHR 0xD1, CHR 0x8F]])
       = ''Tom & Jerrya < b'' @ [CHR 0xD1, CHR 0x8F]"
proof -
  have title: "xml_chars ''Tom & Jerry''"
    by (rule xml_chars_example)
  have paragraphs: "\<forall>p \<in> set [''a < b'', [CHR 0xD1, CHR 0x8F]]. xml_chars p"
    by (simp add: xml_chars_example del: xml_chars.simps)
  from buildDocumentXML_text[of "''Tom & Jerry''" "[''a < b'', [CHR 0xD1, CHR 0x8F]]"]
    title paragraphs
  have "document_paragraphs (buildDocumentXML ''Tom & Jerry'' [''a < b'', [CHR 0xD1, CHR 0x8F]])
          = map (\<lambda>t. [t]) [''Tom & Jerry'', ''a < b'', [CHR 0xD1, CHR 0x8F]]"
    and "document_text_runs (buildDocumentXML ''Tom & Jerry'' [''a < b'', [CHR 0xD1, CHR 0x8F]])
          = [''Tom & Jerry'', ''a < b'', [CHR 0xD1, CHR 0x8F]]"
    and "document_text (buildDocumentXML ''Tom & Jerry'' [''a < b'', [CHR 0xD1, CHR 0x8F]])
          = ''Tom & Jerry'' @ concat [''a < b'', [CHR 0xD1, CHR 0x8F]]"
    by blast+
  with xml_chars_example show ?thesis
    by (simp del: xml_chars.simps)
qed

text \<open>
  Claim C1 as it is stated fails: a control character, such as U+0001 in a title or a
  form feed inside a chunk, is no character of XML, and a byte \<open>FF\<close> is not UTF-8; the
  escaping writes U+FFFD in their place, and the text of the document is not the title
  followed by the chunks.
\<close>

theorem buildDocumentXML_replaces_control:
  "document_paragraphs
     (buildDocumentXML [CHR 0x01] [[CHR ''a'', CHR 0x0C, CHR ''b''], [CHR ''a'', CHR 0xFF, CHR ''b'']])
     = [[[CHR 0xEF, CHR 0xBF, CHR 0xBD]],
        [[CHR ''a'', CHR 0xEF, CHR 0xBF, CHR 0xBD, CHR ''b'']],
        [[CHR ''a'', CHR 0xEF, CHR 0xBF, CHR 0xBD, CHR ''b'']]]
   \<and> document_text
       (buildDocumentXML [CHR 0x01] [[CHR ''a'', CHR 0x0C, CHR ''b''], [CHR ''a'', CHR 0xFF, CHR ''b'']])
     = [CHR 0xEF, CHR 0xBF, CHR 0xBD, CHR ''a'', CHR 0xEF, CHR 0xBF, CHR 0xBD, CHR ''b'',
        CHR ''a'', CHR 0xEF, CHR 0xBF, CHR 0xBD, CHR ''b'']
   \<and> document_text
       (buildDocumentXML [CHR 0x01] [[CHR ''a'', CHR 0x0C, CHR ''b''], [CHR ''a'', CHR 0xFF, CHR ''b'']])
     \<noteq> [CHR 0x01] @ concat [[CHR ''a'', CHR 0x0C, CHR ''b''], [CHR ''a'', CHR 0xFF, CHR ''b'']]"
  by (simp add: document_read_back replace_invalid_example
        del: replace_invalid.simps)

end
